theory Spec2Isabelle
  imports Complex_Main "HOL-Library.Word"
begin

unbundle bit_operations_syntax

section \<open>JavaScript values\<close>

text \<open>
  The dashboard is a TypeScript program, so its strings are sequences of UTF-16 code
  units (\<open>charCodeAt\<close>, \<open>length\<close> and the regular expressions all count code units).
  A string is a list of 16-bit words; \<open>js\<close> embeds an ASCII literal.

  Numbers are IEEE doubles in the program. The values read from rows pass through
  \<open>safeNumber\<close>, which replaces every non-finite value, and are idealised as exact
  rationals: rounding is outside the model. A number that reaches a function as a
  parameter (a window size, a bound) is a \<open>jsnumber\<close>: finite, infinite or NaN.
\<close>

type_synonym jsstring = "16 word list"

definition js :: "string \<Rightarrow> jsstring" where
  "js s = map of_char s"

text \<open>
  A cell of a parsed CSV row (Papa.parse with \<open>dynamicTyping\<close>): a number, a string,
  a boolean or null. A missing property (\<open>undefined\<close>) is \<open>None\<close> at the lookup.
\<close>

datatype jsval = JNum rat | JStr jsstring | JBool bool | JNull

datatype jsnumber = Fin rat | PosInf | NegInf | NaN

definition clamp_number :: "rat \<Rightarrow> rat \<Rightarrow> jsnumber \<Rightarrow> rat option" where
  \<comment> \<open>\<open>Math.max(lo, Math.min(hi, x))\<close>; the result is finite or NaN, which is \<open>None\<close>\<close>
  "clamp_number lo hi x =
     (case x of
        Fin q \<Rightarrow> Some (max lo (min hi q))
      | PosInf \<Rightarrow> Some (max lo hi)
      | NegInf \<Rightarrow> Some lo
      | NaN \<Rightarrow> None)"

definition num_le :: "rat \<Rightarrow> rat option \<Rightarrow> bool" where
  \<comment> \<open>\<open>a <= b\<close>, false when \<open>b\<close> is NaN\<close>
  "num_le a b = (case b of Some q \<Rightarrow> a \<le> q | None \<Rightarrow> False)"

definition num_ge :: "rat \<Rightarrow> rat option \<Rightarrow> bool" where
  \<comment> \<open>\<open>a >= b\<close>, false when \<open>b\<close> is NaN\<close>
  "num_ge a b = (case b of Some q \<Rightarrow> a \<ge> q | None \<Rightarrow> False)"

text \<open>
  An object used as a dictionary is the list of its own properties in the order in which
  JavaScript enumerates them: first the keys that are array indices (canonical decimal
  numerals below \<open>2^32 - 1\<close>) in ascending numeric order, then every other key in
  order of creation. \<open>obj_get\<close> looks at the own properties. A read \<open>ob[k]\<close> that
  finds no own property continues in \<open>Object.prototype\<close>, whose members are
  functions (and the prototype object itself under \<open>__proto__\<close>): \<open>obj_read\<close> is
  that read. The reads modelled with \<open>obj_get\<close> are those where an inherited member
  and a missing property give the same result: fixed property names that
  \<open>Object.prototype\<close> does not have, keys that are digit strings, and values passed to
  \<open>safeNumber\<close>, for which a function or an object is NaN and so the fallback.
\<close>

type_synonym 'v jsobj = "(jsstring \<times> 'v) list"

type_synonym row = "jsval jsobj"

definition obj_get :: "'v jsobj \<Rightarrow> jsstring \<Rightarrow> 'v option" where
  "obj_get ob k = map_of ob k"

definition Object_prototype_keys :: "jsstring list" where
  "Object_prototype_keys =
     [js ''constructor'', js ''__proto__'', js ''hasOwnProperty'', js ''isPrototypeOf'',
      js ''propertyIsEnumerable'', js ''toLocaleString'', js ''toString'', js ''valueOf'',
      js ''__defineGetter__'', js ''__defineSetter__'', js ''__lookupGetter__'',
      js ''__lookupSetter__'']"

datatype 'v property = Own 'v | Inherited jsstring | Undefined

definition obj_read :: "'v jsobj \<Rightarrow> jsstring \<Rightarrow> 'v property" where
  \<comment> \<open>\<open>ob[k]\<close>: an own property, else the member of \<open>Object.prototype\<close> of that name\<close>
  "obj_read ob k =
     (case obj_get ob k of
        Some v \<Rightarrow> Own v
      | None \<Rightarrow> if k \<in> set Object_prototype_keys then Inherited k else Undefined)"

definition digit_of :: "16 word \<Rightarrow> nat option" where
  "digit_of c = (if 0x30 \<le> c \<and> c \<le> 0x39 then Some (unat c - 48) else None)"

fun digits_val :: "nat \<Rightarrow> jsstring \<Rightarrow> nat option" where
  "digits_val acc [] = Some acc"
| "digits_val acc (c # cs) =
     (case digit_of c of None \<Rightarrow> None | Some d \<Rightarrow> digits_val (10 * acc + d) cs)"

definition array_index :: "jsstring \<Rightarrow> nat option" where
  "array_index k =
     (case k of
        [] \<Rightarrow> None
      | c # cs \<Rightarrow>
          if c = 0x30 \<and> cs \<noteq> [] then None
          else (case digits_val 0 k of
                  None \<Rightarrow> None
                | Some n \<Rightarrow> if int n < 2 ^ 32 - 1 then Some n else None))"

fun obj_insert_index :: "nat \<Rightarrow> jsstring \<Rightarrow> 'v \<Rightarrow> 'v jsobj \<Rightarrow> 'v jsobj" where
  "obj_insert_index n k v [] = [(k, v)]"
| "obj_insert_index n k v ((k', v') # rest) =
     (case array_index k' of
        Some n' \<Rightarrow>
          if n' < n then (k', v') # obj_insert_index n k v rest
          else (k, v) # (k', v') # rest
      | None \<Rightarrow> (k, v) # (k', v') # rest)"

definition obj_set :: "'v jsobj \<Rightarrow> jsstring \<Rightarrow> 'v \<Rightarrow> 'v jsobj" where
  \<comment> \<open>\<open>ob[k] = v\<close>, and \<open>{...ob, [k]: v}\<close>: an existing key keeps its place\<close>
  "obj_set ob k v =
     (case map_of ob k of
        Some _ \<Rightarrow> map (\<lambda>(k', v'). if k' = k then (k, v) else (k', v')) ob
      | None \<Rightarrow>
          (case array_index k of
             Some n \<Rightarrow> obj_insert_index n k v ob
           | None \<Rightarrow> ob @ [(k, v)]))"

definition obj_assign :: "'v jsobj \<Rightarrow> jsstring \<Rightarrow> 'v \<Rightarrow> 'v jsobj" where
  \<comment> \<open>\<open>ob[k] = v\<close> for a number \<open>v\<close>: the setter of \<open>__proto__\<close> ignores a value that
      is not an object\<close>
  "obj_assign ob k v = (if k = js ''__proto__'' then ob else obj_set ob k v)"

definition obj_keys :: "'v jsobj \<Rightarrow> jsstring list" where
  "obj_keys ob = map fst ob"

subsection \<open>The host environment\<close>

text \<open>
  The program calls library code that is not part of the repository: the builtins
  \<open>Number\<close>, \<open>String\<close>, \<open>String.prototype.toLowerCase\<close> and \<open>JSON.parse\<close>, and
  the CSV parser Papa.parse. They are parameters of the model, collected in a record;
  every theorem below holds for every host.
\<close>

datatype error = CsvParseError | JsonSyntaxError | TypeError

datatype json =
    JsonNull
  | JsonBool bool
  | JsonNum rat
  | JsonStr jsstring
  | JsonArr "json list"
  | JsonObj "(jsstring \<times> json) list"

record host =
  toLowerCase :: "jsstring \<Rightarrow> jsstring"
  Number_str :: "jsstring \<Rightarrow> rat option"  \<comment> \<open>\<open>Number(s)\<close>; \<open>None\<close> when it is not finite\<close>
  String_num :: "rat \<Rightarrow> jsstring"  \<comment> \<open>\<open>String(n)\<close> of a finite number\<close>
  parseCsv :: "jsstring \<Rightarrow> error + row list"  \<comment> \<open>\<open>Inl\<close>: the promise is rejected\<close>
  JSON_parse :: "jsstring \<Rightarrow> error + json"  \<comment> \<open>\<open>Inl\<close>: a SyntaxError is thrown\<close>

fun Number_val :: "host \<Rightarrow> jsval option \<Rightarrow> rat option" where
  "Number_val H None = None"
| "Number_val H (Some (JNum n)) = Some n"
| "Number_val H (Some (JStr s)) = Number_str H s"
| "Number_val H (Some (JBool b)) = Some (if b then 1 else 0)"
| "Number_val H (Some JNull) = Some 0"

definition safeNumber :: "host \<Rightarrow> jsval option \<Rightarrow> rat \<Rightarrow> rat" where
  "safeNumber H x fallback = (case Number_val H x of Some n \<Rightarrow> n | None \<Rightarrow> fallback)"

fun String_val :: "host \<Rightarrow> jsval \<Rightarrow> jsstring" where
  "String_val H (JStr s) = s"
| "String_val H (JNum n) = String_num H n"
| "String_val H (JBool b) = (if b then js ''true'' else js ''false'')"
| "String_val H JNull = js ''null''"

fun nullish :: "jsval option \<Rightarrow> bool" where
  "nullish None = True"
| "nullish (Some JNull) = True"
| "nullish (Some _) = False"

definition coalesce :: "jsval option \<Rightarrow> jsval option \<Rightarrow> jsval option" where
  \<comment> \<open>\<open>a ?? b\<close>\<close>
  "coalesce a b = (if nullish a then b else a)"

section \<open>Interval and peak analytics\<close>

definition row_minute :: "host \<Rightarrow> row \<Rightarrow> rat" where
  "row_minute H r = safeNumber H (obj_get r (js ''minute'')) 0"

definition row_value :: "host \<Rightarrow> jsstring \<Rightarrow> row \<Rightarrow> rat" where
  "row_value H seriesKey r = safeNumber H (obj_get r seriesKey) 0"

subsection \<open>computePeak\<close>

record peak =
  peak_minute :: rat
  peak_value :: rat

text \<open>
  The loop of \<open>computePeak\<close>. \<open>bestMinute\<close> starts as null and \<open>bestVal\<close> as
  \<open>-Infinity\<close>, which is \<open>None\<close> here: every finite value is greater.
\<close>

fun peak_loop :: "host \<Rightarrow> jsstring \<Rightarrow> row list \<Rightarrow> rat option \<Rightarrow> rat option
    \<Rightarrow> rat option \<times> rat option" where
  "peak_loop H seriesKey [] bestMinute bestVal = (bestMinute, bestVal)"
| "peak_loop H seriesKey (r # rs) bestMinute bestVal =
     (let m = row_minute H r; v = row_value H seriesKey r
      in if (case bestVal of None \<Rightarrow> True | Some b \<Rightarrow> v > b)
         then peak_loop H seriesKey rs (Some m) (Some v)
         else peak_loop H seriesKey rs bestMinute bestVal)"

definition computePeak :: "host \<Rightarrow> row list \<Rightarrow> jsstring \<Rightarrow> peak option" where
  "computePeak H curveRows seriesKey =
     (case peak_loop H seriesKey curveRows None None of
        (Some bestMinute, Some bestVal) \<Rightarrow>
          if bestVal < 0 then None
          else Some \<lparr>peak_minute = bestMinute, peak_value = bestVal\<rparr>
      | _ \<Rightarrow> None)"

subsection \<open>topKIntervals\<close>

record candidate =
  cand_i :: nat
  cand_j :: nat
  cand_score :: rat
  cand_start :: rat
  cand_end :: rat

record interval =
  iv_start :: rat
  iv_end :: rat
  iv_score :: rat

definition prefix_sums :: "rat list \<Rightarrow> rat list" where
  \<comment> \<open>\<open>ps = [0]; for i < n: ps.push(ps[i] + values[i])\<close>\<close>
  "prefix_sums vals = foldl (\<lambda>ps v. ps @ [last ps + v]) [0] vals"

function scan_end :: "rat list \<Rightarrow> rat option \<Rightarrow> nat \<Rightarrow> nat" where
  \<comment> \<open>\<open>while (j + 1 < n && minutes[j + 1] <= endMinute) j++\<close>\<close>
  "scan_end minutes endMinute j =
     (if j + 1 < length minutes \<and> num_le (minutes ! (j + 1)) endMinute
      then scan_end minutes endMinute (j + 1) else j)"
  by pat_completeness auto
termination
  by (relation "measure (\<lambda>(minutes, endMinute, j). length minutes - j)") auto

declare scan_end.simps [simp del]

definition make_candidate :: "rat list \<Rightarrow> rat list \<Rightarrow> rat option \<Rightarrow> nat \<Rightarrow> candidate" where
  \<comment> \<open>\<open>endMinute = minutes[i] + (w - 1)\<close> is NaN when \<open>w\<close> is\<close>
  "make_candidate minutes ps w i =
     (let endMinute = map_option (\<lambda>w. minutes ! i + (w - 1)) w;
          j = scan_end minutes endMinute i;
          score = ps ! (j + 1) - ps ! i
      in \<lparr>cand_i = i, cand_j = j, cand_score = score,
          cand_start = minutes ! i, cand_end = minutes ! j\<rparr>)"

definition overlaps :: "nat \<times> nat \<Rightarrow> nat \<times> nat \<Rightarrow> bool" where
  "overlaps a b = (max (fst a) (fst b) \<le> min (snd a) (snd b))"

fun pick_loop :: "rat option \<Rightarrow> candidate list \<Rightarrow> (nat \<times> nat) list \<Rightarrow> interval list
    \<Rightarrow> interval list" where
  "pick_loop kk [] used picked = picked"
| "pick_loop kk (c # cs) used picked =
     (if num_ge (of_nat (length picked)) kk then picked
      else if list_ex (\<lambda>u. overlaps u (cand_i c, cand_j c)) used
        then pick_loop kk cs used picked
      else pick_loop kk cs (used @ [(cand_i c, cand_j c)])
             (picked @ [\<lparr>iv_start = cand_start c, iv_end = cand_end c,
                         iv_score = cand_score c\<rparr>]))"

definition topKIntervals :: "host \<Rightarrow> row list \<Rightarrow> jsstring \<Rightarrow> jsnumber \<Rightarrow> jsnumber
    \<Rightarrow> interval list" where
  "topKIntervals H curveRows seriesKey windowSize k =
     (if curveRows = [] then []
      else
        let rows = sort_key (row_minute H) curveRows;
            minutes = map (row_minute H) rows;
            vals = map (row_value H seriesKey) rows;
            n = length rows;
            w = clamp_number 1 20 windowSize;
            kk = clamp_number 1 5 k;
            ps = prefix_sums vals;
            candidates = map (make_candidate minutes ps w) [0..<n];
            sorted_candidates = sort_key (\<lambda>c. - cand_score c) candidates;
            picked = pick_loop kk sorted_candidates [] []
        in sort_key iv_start picked)"

text \<open>
  Reference notions for the peak: the first row of a list that holds the maximum of the
  series, and the peak as the specification words it, looked up in the series sorted by
  minute.
\<close>

definition peak_of_row :: "host \<Rightarrow> jsstring \<Rightarrow> row \<Rightarrow> peak" where
  "peak_of_row H seriesKey r =
     \<lparr>peak_minute = row_minute H r, peak_value = row_value H seriesKey r\<rparr>"

definition first_max :: "host \<Rightarrow> jsstring \<Rightarrow> row list \<Rightarrow> row option" where
  "first_max H seriesKey rs =
     find (\<lambda>r. row_value H seriesKey r = Max (row_value H seriesKey ` set rs)) rs"

definition findPeak_spec :: "host \<Rightarrow> row list \<Rightarrow> jsstring \<Rightarrow> peak option" where
  "findPeak_spec H series seriesKey =
     (if series = [] \<or> Max (row_value H seriesKey ` set series) < 0 then None
      else map_option (peak_of_row H seriesKey)
             (first_max H seriesKey (sort_key (row_minute H) series)))"

text \<open>
  The candidates that \<open>pick_loop\<close> has accepted so far: \<open>used\<close> holds their index
  ranges and \<open>picked\<close> their intervals. \<open>chosen_loop\<close> is the same loop returning
  the accepted candidates themselves.
\<close>

definition cand_range :: "candidate \<Rightarrow> nat \<times> nat" where
  "cand_range c = (cand_i c, cand_j c)"

definition cand_interval :: "candidate \<Rightarrow> interval" where
  "cand_interval c =
     \<lparr>iv_start = cand_start c, iv_end = cand_end c, iv_score = cand_score c\<rparr>"

fun chosen_loop :: "rat option \<Rightarrow> candidate list \<Rightarrow> candidate list \<Rightarrow> candidate list" where
  "chosen_loop kk [] chosen = chosen"
| "chosen_loop kk (c # cs) chosen =
     (if num_ge (of_nat (length chosen)) kk then chosen
      else if list_ex (\<lambda>u. overlaps (cand_range u) (cand_range c)) chosen
        then chosen_loop kk cs chosen
      else chosen_loop kk cs (chosen @ [c]))"

definition cand_ok :: "rat list \<Rightarrow> candidate \<Rightarrow> bool" where
  "cand_ok minutes c \<longleftrightarrow>
     cand_i c \<le> cand_j c \<and> cand_j c < length minutes \<and>
     cand_start c = minutes ! cand_i c \<and> cand_end c = minutes ! cand_j c \<and>
     (\<forall>t. cand_j c < t \<and> t < length minutes \<longrightarrow> cand_end c < minutes ! t)"

definition iv_disjoint :: "interval \<Rightarrow> interval \<Rightarrow> bool" where
  "iv_disjoint a b \<longleftrightarrow> max (iv_start a) (iv_start b) > min (iv_end a) (iv_end b)"

section \<open>Deterministic colours\<close>

definition EMO_ORDER :: "jsstring list" where
  "EMO_ORDER =
     [js ''touching'', js ''laugh'', js ''praise'', js ''neg'', js ''self_mock'', js ''other'']"

definition EMO_COLOR_MAP :: "jsstring jsobj" where
  "EMO_COLOR_MAP =
     [(js ''touching'', js ''#2563eb''),
      (js ''laugh'', js ''#16a34a''),
      (js ''praise'', js ''#ea580c''),
      (js ''neg'', js ''#dc2626''),
      (js ''self_mock'', js ''#7c3aed''),
      (js ''other'', js ''#0891b2''),
      (js ''pos'', js ''#0ea5e9''),
      (js ''neu'', js ''#64748b'')]"

definition js_trunc :: "rat \<Rightarrow> int" where
  "js_trunc q = (if 0 \<le> q then \<lfloor>q\<rfloor> else \<lceil>q\<rceil>)"

definition js_rem :: "rat \<Rightarrow> rat \<Rightarrow> rat" where
  \<comment> \<open>\<open>x % y\<close> on numbers: the remainder has the sign of \<open>x\<close>\<close>
  "js_rem x y = x - y * of_int (js_trunc (x / y))"

definition Math_round :: "rat \<Rightarrow> int" where
  \<comment> \<open>halves round towards plus infinity\<close>
  "Math_round q = \<lfloor>q + 1 / 2\<rfloor>"

definition hex_digit :: "nat \<Rightarrow> 16 word" where
  "hex_digit d = (if d < 10 then of_nat (48 + d) else of_nat (87 + d))"

fun hex_digits :: "nat \<Rightarrow> jsstring" where
  "hex_digits n =
     (if n < 16 then [hex_digit n] else hex_digits (n div 16) @ [hex_digit (n mod 16)])"

declare hex_digits.simps [simp del]

definition toString16 :: "int \<Rightarrow> jsstring" where
  \<comment> \<open>\<open>n.toString(16)\<close> of an integer\<close>
  "toString16 n = (if n < 0 then 0x2D # hex_digits (nat (- n)) else hex_digits (nat n))"

definition padStart2 :: "jsstring \<Rightarrow> jsstring" where
  \<comment> \<open>\<open>s.padStart(2, "0")\<close>\<close>
  "padStart2 s = replicate (2 - length s) 0x30 @ s"

definition toHex :: "rat \<Rightarrow> rat \<Rightarrow> jsstring" where
  "toHex m v = padStart2 (toString16 (Math_round ((v + m) * 255)))"

definition hslToHex :: "rat \<Rightarrow> rat \<Rightarrow> rat \<Rightarrow> jsstring" where
  "hslToHex h s0 l0 =
     (let s = s0 / 100;
          l = l0 / 100;
          c = (1 - \<bar>2 * l - 1\<bar>) * s;
          x = c * (1 - \<bar>js_rem (h / 60) 2 - 1\<bar>);
          m = l - c / 2;
          (r, g, b) =
            (if 0 \<le> h \<and> h < 60 then (c, x, 0)
             else if 60 \<le> h \<and> h < 120 then (x, c, 0)
             else if 120 \<le> h \<and> h < 180 then (0, c, x)
             else if 180 \<le> h \<and> h < 240 then (0, x, c)
             else if 240 \<le> h \<and> h < 300 then (x, 0, c)
             else (c, 0, x))
      in 0x23 # toHex m r @ toHex m g @ toHex m b)"

text \<open>
  \<open>h\<close> is kept as a 32-bit word: \<open>h ^= c\<close> xors the code unit into it,
  \<open>Math.imul\<close> is the product modulo \<open>2^32\<close>, and \<open>h >>> 0\<close> reads the word as
  unsigned.
\<close>

definition fnv1aHash32 :: "jsstring \<Rightarrow> int" where
  "fnv1aHash32 str =
     uint (foldl (\<lambda>h c. (h XOR ucast c) * 16777619) (2166136261 :: 32 word) str)"

definition stableColorFromKey :: "jsstring \<Rightarrow> jsstring" where
  "stableColorFromKey key =
     (let h = fnv1aHash32 key mod 360;
          l = (if fnv1aHash32 (key @ js ''_l'') mod 2 = 0 then 45 else 58)
      in hslToHex (of_int h) 82 l)"

datatype color_mode = Emo | Func

text \<open>
  \<open>EMO_COLOR_MAP[key]\<close> is a read through the prototype: for a key such as
  \<open>constructor\<close> it finds the inherited member, which is truthy, and \<open>colorForKey\<close>
  returns that member and not a colour string.
\<close>

datatype color_value = Color jsstring | ProtoMember jsstring

definition colorForKey :: "jsstring \<Rightarrow> color_mode \<Rightarrow> color_value" where
  "colorForKey key mode =
     (case mode of
        Emo \<Rightarrow>
          (case obj_read EMO_COLOR_MAP key of
             Own c \<Rightarrow> if c \<noteq> [] then Color c else Color (js ''#334155'')
           | Inherited k \<Rightarrow> ProtoMember k
           | Undefined \<Rightarrow> Color (js ''#334155''))
      | Func \<Rightarrow> Color (stableColorFromKey key))"

subsection \<open>The colour as the specification defines it\<close>

text \<open>
  The reference definition in the words of the specification: a 32-bit FNV-1a hash
  accumulated over a sequence of symbols as \<open>hash = (hash XOR symbol) * prime mod 2^32\<close>
  from the offset basis, the hue \<open>hash mod 360\<close>, one of two lightness values chosen by
  the parity of a second hash (of the key followed by \<open>_l\<close>), saturation 82, and the
  textbook conversion of hue, saturation and lightness to red, green and blue: chroma
  \<open>C = (1 - |2L - 1|) S\<close>, \<open>X = C (1 - |(H / 60) mod 2 - 1|)\<close>, the sextant
  \<open>\<lfloor>H / 60\<rfloor>\<close> choosing the permutation of \<open>(C, X, 0)\<close>, \<open>m = L - C / 2\<close>, and each
  channel \<open>round (255 (v + m))\<close> written as two hexadecimal digits.
\<close>

definition spec_fnv1a :: "int list \<Rightarrow> int" where
  "spec_fnv1a symbols =
     foldl (\<lambda>hash b. ((hash XOR b) * 16777619) mod 2 ^ 32) 2166136261 symbols"

definition spec_channel :: "rat \<Rightarrow> jsstring" where
  "spec_channel v = padStart2 (hex_digits (nat (round (255 * v))))"

definition spec_hsl_to_hex :: "int \<Rightarrow> rat \<Rightarrow> rat \<Rightarrow> jsstring" where
  "spec_hsl_to_hex hue sat light =
     (let C = (1 - \<bar>2 * light - 1\<bar>) * sat;
          H' = of_int hue / 60;
          X = C * (1 - \<bar>2 * frac (H' / 2) - 1\<bar>);
          m = light - C / 2;
          (r, g, b) =
            (let sextant = hue div 60
             in if sextant = 0 then (C, X, 0)
                else if sextant = 1 then (X, C, 0)
                else if sextant = 2 then (0, C, X)
                else if sextant = 3 then (0, X, C)
                else if sextant = 4 then (X, 0, C)
                else (C, 0, X))
      in 0x23 # spec_channel (r + m) @ spec_channel (g + m) @ spec_channel (b + m))"

definition spec_colorFor :: "int list \<Rightarrow> jsstring" where
  "spec_colorFor symbols =
     (let hue = spec_fnv1a symbols mod 360;
          light = (if spec_fnv1a (symbols @ [0x5F, 0x6C]) mod 2 = 0 then 45 / 100 else 58 / 100)
      in spec_hsl_to_hex hue (82 / 100) light)"

text \<open>
  The bytes of a key: its UTF-8 encoding (a surrogate pair is one code point of four
  bytes, a lone surrogate is encoded as U+FFFD).
\<close>

fun utf8_bytes :: "jsstring \<Rightarrow> int list" where
  "utf8_bytes [] = []"
| "utf8_bytes [c] =
     (let u = uint c in
      if u < 0x80 then [u]
      else if u < 0x800 then [0xC0 + u div 64, 0x80 + u mod 64]
      else if 0xD800 \<le> u \<and> u < 0xE000 then [0xEF, 0xBF, 0xBD]
      else [0xE0 + u div 4096, 0x80 + (u div 64) mod 64, 0x80 + u mod 64])"
| "utf8_bytes (c # d # cs) =
     (let u = uint c; v = uint d in
      if u < 0x80 then u # utf8_bytes (d # cs)
      else if u < 0x800 then (0xC0 + u div 64) # (0x80 + u mod 64) # utf8_bytes (d # cs)
      else if 0xD800 \<le> u \<and> u < 0xDC00 \<and> 0xDC00 \<le> v \<and> v < 0xE000 then
        (let cp = 0x10000 + (u - 0xD800) * 1024 + (v - 0xDC00)
         in (0xF0 + cp div 262144) # (0x80 + (cp div 4096) mod 64)
              # (0x80 + (cp div 64) mod 64) # (0x80 + cp mod 64) # utf8_bytes cs)
      else if 0xD800 \<le> u \<and> u < 0xE000 then 0xEF # 0xBF # 0xBD # utf8_bytes (d # cs)
      else (0xE0 + u div 4096) # (0x80 + (u div 64) mod 64) # (0x80 + u mod 64)
             # utf8_bytes (d # cs))"

section \<open>The episode and table store\<close>

subsection \<open>Classifying a file name\<close>

fun starts_with :: "'a list \<Rightarrow> 'a list \<Rightarrow> bool" where
  "starts_with s [] = True"
| "starts_with [] (p # ps) = False"
| "starts_with (c # cs) (p # ps) = (c = p \<and> starts_with cs ps)"

fun includes_str :: "'a list \<Rightarrow> 'a list \<Rightarrow> bool" where
  "includes_str [] sub = (sub = [])"
| "includes_str (c # cs) sub = (starts_with (c # cs) sub \<or> includes_str cs sub)"

definition endsWith :: "'a list \<Rightarrow> 'a list \<Rightarrow> bool" where
  "endsWith s suffix = starts_with (rev s) (rev suffix)"

definition is_digit :: "16 word \<Rightarrow> bool" where
  "is_digit c \<longleftrightarrow> 0x30 \<le> c \<and> c \<le> 0x39"

definition is_sep :: "16 word \<Rightarrow> bool" where
  \<comment> \<open>the class \<open>[-_]\<close>\<close>
  "is_sep c \<longleftrightarrow> c = 0x2D \<or> c = 0x5F"

text \<open>
  \<open>/ep(\d+)/i\<close>: the leftmost \<open>e\<close> or \<open>E\<close>, then \<open>p\<close> or \<open>P\<close>, then at least one
  digit; the group is the longest run of digits there.
\<close>

fun ep_match :: "jsstring \<Rightarrow> jsstring option" where
  "ep_match [] = None"
| "ep_match [c] = None"
| "ep_match (c # p # ds) =
     (if (c = 0x65 \<or> c = 0x45) \<and> (p = 0x70 \<or> p = 0x50) \<and> takeWhile is_digit ds \<noteq> []
      then Some (takeWhile is_digit ds)
      else ep_match (p # ds))"

text \<open>
  \<open>/(?:^|[-_])(\d{2,3})(?:[-_])/\<close>: at the leftmost position where it matches, the
  start of the string or a separator, then three digits and a separator, or else two
  digits and a separator.
\<close>

definition digits_then_sep :: "jsstring \<Rightarrow> jsstring option" where
  "digits_then_sep s =
     (if 4 \<le> length s \<and> list_all is_digit (take 3 s) \<and> is_sep (s ! 3) then Some (take 3 s)
      else if 3 \<le> length s \<and> list_all is_digit (take 2 s) \<and> is_sep (s ! 2) then Some (take 2 s)
      else None)"

fun sep_digits_scan :: "jsstring \<Rightarrow> jsstring option" where
  "sep_digits_scan [] = None"
| "sep_digits_scan (c # cs) =
     (case (if is_sep c then digits_then_sep cs else None) of
        Some d \<Rightarrow> Some d
      | None \<Rightarrow> sep_digits_scan cs)"

definition parseEpisodeFromName :: "jsstring \<Rightarrow> jsstring option" where
  "parseEpisodeFromName name =
     (case ep_match name of
        Some m \<Rightarrow> Some m
      | None \<Rightarrow>
          (case digits_then_sep name of
             Some d \<Rightarrow> Some d
           | None \<Rightarrow> sep_digits_scan name))"

definition hit :: "jsstring \<Rightarrow> string \<Rightarrow> string \<Rightarrow> bool" where
  \<comment> \<open>\<open>lower.includes(sub) && lower.endsWith(ext)\<close>\<close>
  "hit lower sub ext \<longleftrightarrow> includes_str lower (js sub) \<and> endsWith lower (js ext)"

definition detectTableKey :: "host \<Rightarrow> jsstring \<Rightarrow> (jsstring \<times> jsstring option) option" where
  "detectTableKey H filename =
     (let lower = toLowerCase H filename;
          ep = parseEpisodeFromName lower
      in if hit lower ''episode_stats'' ''.csv'' then Some (js ''episode_stats'', None)
         else if hit lower ''danmaku_basic_stats'' ''.json''
           then Some (js ''danmaku_basic_stats'', ep)
         else if hit lower ''danmaku_emo_dist'' ''.csv''
           then Some (js ''danmaku_emo_dist'', ep)
         else if hit lower ''comment_root_emo_dist'' ''.csv''
           then Some (js ''comment_root_emo_dist'', ep)
         else if hit lower ''comment_reply_emo_dist'' ''.csv''
           then Some (js ''comment_reply_emo_dist'', ep)
         else if hit lower ''danmaku_model_emo_dist'' ''.csv''
           then Some (js ''danmaku_model_emo_dist'', ep)
         else if hit lower ''comment_root_model_emo_dist'' ''.csv''
           then Some (js ''comment_root_model_emo_dist'', ep)
         else if hit lower ''comment_reply_model_emo_dist'' ''.csv''
           then Some (js ''comment_reply_model_emo_dist'', ep)
         else if hit lower ''model_usage'' ''.csv'' then Some (js ''model_usage'', ep)
         else if hit lower ''danmaku_func_dist'' ''.csv''
           then Some (js ''danmaku_func_dist'', ep)
         else if hit lower ''comment_func_dist'' ''.csv''
           then Some (js ''comment_func_dist'', ep)
         else if hit lower ''comment_root_func_dist'' ''.csv''
           then Some (js ''comment_root_func_dist'', ep)
         else if hit lower ''comment_reply_func_dist'' ''.csv''
           then Some (js ''comment_reply_func_dist'', ep)
         else if hit lower ''danmaku_minute_emo_curve'' ''.csv''
           then Some (js ''danmaku_minute_emo_curve'', ep)
         else if hit lower ''danmaku_minute_func_curve'' ''.csv''
           then Some (js ''danmaku_minute_func_curve'', ep)
         else if hit lower ''danmaku_burst_2s'' ''.csv''
           then Some (js ''danmaku_burst_2s'', ep)
         else if hit lower ''top_terms_danmaku'' ''.csv''
           then Some (js ''top_terms_danmaku'', ep)
         else if hit lower ''top_terms_comment'' ''.csv''
           then Some (js ''top_terms_comment'', ep)
         else if hit lower ''cleaning_report'' ''.csv''
           then Some (js ''cleaning_report'', ep)
         else None)"

subsection \<open>The store and its ingest\<close>

record loaded_file =
  lf_name :: jsstring
  lf_size :: nat
  lf_type :: jsstring

type_synonym TableMap = "(row list) jsobj"

record Store =
  episodes :: "jsstring list"
  episodeStats :: "row list option"
  basicStatsByEp :: "json jsobj"
  tablesByEp :: "TableMap jsobj"
  loadedFiles :: "loaded_file list"

definition initialStore :: Store where
  "initialStore = \<lparr>episodes = [], episodeStats = None, basicStatsByEp = [],
     tablesByEp = [], loadedFiles = []\<rparr>"

definition set_add :: "'a list \<Rightarrow> 'a \<Rightarrow> 'a list" where
  \<comment> \<open>\<open>Set.prototype.add\<close>: a set enumerates in order of first insertion\<close>
  "set_add xs x = (if x \<in> set xs then xs else xs @ [x])"

definition stats_row_episode :: "host \<Rightarrow> row \<Rightarrow> jsstring" where
  \<comment> \<open>\<open>String(r.episode_id ?? r.episode ?? "")\<close>\<close>
  "stats_row_episode H r =
     (case coalesce (coalesce (obj_get r (js ''episode_id'')) (obj_get r (js ''episode'')))
             (Some (JStr [])) of
        Some v \<Rightarrow> String_val H v
      | None \<Rightarrow> js ''undefined'')"

definition mergeEpisodes :: "host \<Rightarrow> TableMap jsobj \<Rightarrow> json jsobj \<Rightarrow> row list option
    \<Rightarrow> jsstring list" where
  "mergeEpisodes H tables basic stats =
     (let eps0 = foldl set_add [] (obj_keys tables);
          eps1 = foldl set_add eps0 (obj_keys basic);
          eps2 = foldl (\<lambda>eps r. let ep = stats_row_episode H r
                                 in if ep \<noteq> [] then set_add eps ep else eps)
                   eps1 (case stats of None \<Rightarrow> [] | Some rows \<Rightarrow> rows)
      in sort_key (\<lambda>a. safeNumber H (Some (JStr a)) 0) eps2)"

text \<open>
  \<open>ingestFileText\<close> awaits the parser and then applies one functional update to the
  store. A rejected parse or a thrown \<open>SyntaxError\<close> leaves before the update: the
  result is \<open>Inl\<close> and the store is the one before the call.
\<close>

definition ingestFileText :: "host \<Rightarrow> jsstring \<Rightarrow> jsstring \<Rightarrow> Store \<Rightarrow> error + Store" where
  "ingestFileText H name content prev =
     (case detectTableKey H name of
        None \<Rightarrow> Inr prev
      | Some (key, dep) \<Rightarrow>
          if key = js ''episode_stats'' then
            (case parseCsv H content of
               Inl e \<Rightarrow> Inl e
             | Inr rows \<Rightarrow>
                 let eps = mergeEpisodes H (tablesByEp prev) (basicStatsByEp prev) (Some rows)
                 in Inr (prev\<lparr>episodeStats := Some rows, episodes := eps\<rparr>))
          else if key = js ''danmaku_basic_stats'' then
            (case dep of
               None \<Rightarrow> Inr prev
             | Some ep \<Rightarrow>
                 if ep = [] then Inr prev
                 else (case JSON_parse H content of
                         Inl e \<Rightarrow> Inl e
                       | Inr obj \<Rightarrow>
                           let basic = obj_set (basicStatsByEp prev) ep obj;
                               eps = mergeEpisodes H (tablesByEp prev) basic (episodeStats prev)
                           in Inr (prev\<lparr>basicStatsByEp := basic, episodes := eps\<rparr>)))
          else
            (case dep of
               None \<Rightarrow> Inr prev
             | Some ep \<Rightarrow>
                 if ep = [] then Inr prev
                 else (case parseCsv H content of
                         Inl e \<Rightarrow> Inl e
                       | Inr rows \<Rightarrow>
                           let cur = (case obj_get (tablesByEp prev) ep of
                                        Some t \<Rightarrow> t | None \<Rightarrow> []);
                               nextTablesByEp =
                                 obj_set (tablesByEp prev) ep (obj_set cur key rows);
                               eps = mergeEpisodes H nextTablesByEp (basicStatsByEp prev)
                                       (episodeStats prev)
                           in Inr (prev\<lparr>tablesByEp := nextTablesByEp, episodes := eps\<rparr>))))"

text \<open>
  One ingest as a step on the store (an exception leaves the store as it was), and a
  session as a sequence of such steps from the empty store.
\<close>

definition ingest_step :: "host \<Rightarrow> jsstring \<times> jsstring \<Rightarrow> Store \<Rightarrow> Store" where
  "ingest_step H f prev =
     (case ingestFileText H (fst f) (snd f) prev of Inl e \<Rightarrow> prev | Inr s \<Rightarrow> s)"

definition ingest_all :: "host \<Rightarrow> (jsstring \<times> jsstring) list \<Rightarrow> Store \<Rightarrow> Store" where
  "ingest_all H fs s = fold (ingest_step H) fs s"

definition stats_episodes :: "host \<Rightarrow> row list option \<Rightarrow> jsstring set" where
  \<comment> \<open>the episode identifiers embedded in the rows of the global scalar-stats table\<close>
  "stats_episodes H stats =
     {ep \<in> stats_row_episode H ` set (case stats of None \<Rightarrow> [] | Some rows \<Rightarrow> rows). ep \<noteq> []}"

definition store_episode_union :: "host \<Rightarrow> Store \<Rightarrow> jsstring set" where
  "store_episode_union H s =
     set (obj_keys (tablesByEp s)) \<union> set (obj_keys (basicStatsByEp s))
       \<union> stats_episodes H (episodeStats s)"

definition table_slot :: "Store \<Rightarrow> jsstring \<Rightarrow> jsstring \<Rightarrow> row list option" where
  \<comment> \<open>\<open>store.tablesByEp[ep]?.[key]\<close> for the key of a table kind; a member of
      \<open>Object.prototype\<close> found under \<open>ep\<close> has no such property, which gives undefined
      as a missing episode does\<close>
  "table_slot s ep key =
     (case obj_get (tablesByEp s) ep of None \<Rightarrow> None | Some t \<Rightarrow> obj_get t key)"

section \<open>The distribution aggregator\<close>

datatype DistKind =
    emo_danmaku | emo_comment_root | emo_comment_reply
  | func_danmaku | func_comment_all | func_comment_root | func_comment_reply

definition isEmo :: "DistKind \<Rightarrow> bool" where
  \<comment> \<open>\<open>distKind.startsWith("emo_")\<close>\<close>
  "isEmo kind \<longleftrightarrow> kind = emo_danmaku \<or> kind = emo_comment_root \<or> kind = emo_comment_reply"

definition emoTableKey :: "DistKind \<Rightarrow> jsstring" where
  "emoTableKey kind =
     (if kind = emo_danmaku then js ''danmaku_emo_dist''
      else if kind = emo_comment_root then js ''comment_root_emo_dist''
      else js ''comment_reply_emo_dist'')"

definition funcTableKey :: "DistKind \<Rightarrow> jsstring" where
  "funcTableKey kind =
     (if kind = func_danmaku then js ''danmaku_func_dist''
      else if kind = func_comment_all then js ''comment_func_dist''
      else if kind = func_comment_root then js ''comment_root_func_dist''
      else js ''comment_reply_func_dist'')"

definition distTableKey :: "DistKind \<Rightarrow> jsstring" where
  \<comment> \<open>the table a comparison kind needs, as \<open>distCompareMissing\<close> selects it\<close>
  "distTableKey kind = (if isEmo kind then emoTableKey kind else funcTableKey kind)"

definition emoLabel :: "DistKind \<Rightarrow> jsstring" where
  "emoLabel kind =
     (if kind = emo_danmaku
        then [0x5F39, 0x5E55, 0x60C5, 0x7EEA, 0x5206, 0x5E03, 0xFF08, 0x5806, 0x53E0, 0xFF09]
      else if kind = emo_comment_root
        then [0x6839, 0x8BC4, 0x8BBA, 0x60C5, 0x7EEA, 0x5206, 0x5E03, 0xFF08, 0x5806, 0x53E0,
              0xFF09]
      else [0x56DE, 0x590D, 0x8BC4, 0x8BBA, 0x60C5, 0x7EEA, 0x5206, 0x5E03, 0xFF08, 0x5806,
            0x53E0, 0xFF09])"

definition funcLabel :: "DistKind \<Rightarrow> jsstring" where
  "funcLabel kind =
     (if kind = func_danmaku
        then [0x5F39, 0x5E55, 0x529F, 0x80FD, 0x5206, 0x5E03, 0xFF08] @ js ''TopN + other''
               @ [0xFF09]
      else if kind = func_comment_all
        then [0x8BC4, 0x8BBA, 0x529F, 0x80FD, 0x5206, 0x5E03, 0xFF08, 0x603B, 0x4F53, 0xFF09]
      else if kind = func_comment_root
        then [0x8BC4, 0x8BBA, 0x529F, 0x80FD, 0x5206, 0x5E03, 0xFF08, 0x6839, 0x8BC4, 0xFF09]
      else [0x8BC4, 0x8BBA, 0x529F, 0x80FD, 0x5206, 0x5E03, 0xFF08, 0x56DE, 0x590D, 0xFF09])"

record DistCompare =
  dc_rows :: "row list"
  dc_keys :: "jsstring list"
  dc_label :: jsstring
  dc_colors :: "jsstring jsobj"

definition emptyDistCompare :: DistCompare where
  \<comment> \<open>\<open>{ rows: [], keys: [], label: "", colors: {} }\<close>\<close>
  "emptyDistCompare = \<lparr>dc_rows = [], dc_keys = [], dc_label = [], dc_colors = []\<rparr>"

definition slot_rows :: "Store \<Rightarrow> jsstring \<Rightarrow> jsstring \<Rightarrow> row list" where
  \<comment> \<open>\<open>store.tablesByEp[ep]?.[tableKey] ?? []\<close>\<close>
  "slot_rows store ep tableKey = (case table_slot store ep tableKey of Some rs \<Rightarrow> rs | None \<Rightarrow> [])"

definition hasAny :: "Store \<Rightarrow> jsstring list \<Rightarrow> jsstring \<Rightarrow> bool" where
  \<comment> \<open>\<open>eps.some((ep) => (store.tablesByEp[ep]?.[tableKey]?.length ?? 0) > 0)\<close>\<close>
  "hasAny store eps tableKey = list_ex (\<lambda>ep. length (slot_rows store ep tableKey) > 0) eps"

definition row_tag :: "host \<Rightarrow> jsstring \<Rightarrow> row \<Rightarrow> jsstring" where
  \<comment> \<open>\<open>String(r[field] ?? r.label ?? "other")\<close>\<close>
  "row_tag H field r =
     (case coalesce (coalesce (obj_get r field) (obj_get r (js ''label'')))
             (Some (JStr (js ''other''))) of
        Some v \<Rightarrow> String_val H v
      | None \<Rightarrow> js ''undefined'')"

definition row_ratio :: "host \<Rightarrow> row \<Rightarrow> rat" where
  "row_ratio H r = safeNumber H (obj_get r (js ''ratio'')) 0"

definition ratio_map :: "host \<Rightarrow> jsstring \<Rightarrow> row list \<Rightarrow> rat jsobj" where
  \<comment> \<open>\<open>m = {}; for (r of table) m[tag(r)] = safeNumber(r.ratio)\<close>\<close>
  "ratio_map H field table =
     foldl (\<lambda>m r. obj_assign m (row_tag H field r) (row_ratio H r)) [] table"

definition base_row :: "jsstring \<Rightarrow> row" where
  \<comment> \<open>the object literal with the properties \<open>episode\<close> (the episode between the two
      characters U+7B2C and U+96C6) and \<open>ep\<close>\<close>
  "base_row ep = [(js ''episode'', JStr ([0x7B2C] @ ep @ [0x96C6])), (js ''ep'', JStr ep)]"

definition fill_row :: "rat jsobj \<Rightarrow> jsstring list \<Rightarrow> row \<Rightarrow> row" where
  \<comment> \<open>\<open>for (k of keys) row[k] = m[k] ?? 0\<close>; the keys are \<open>EMO_ORDER\<close> or the keys of
      a \<open>funcMean\<close> that did not throw, and none of them names a member of
      \<open>Object.prototype\<close>\<close>
  "fill_row m ks row0 =
     foldl (\<lambda>row k. obj_set row k (JNum (case obj_get m k of Some v \<Rightarrow> v | None \<Rightarrow> 0))) row0 ks"

definition row_num :: "row \<Rightarrow> jsstring \<Rightarrow> rat" where
  \<comment> \<open>\<open>row[k] ?? 0\<close>, read where \<open>row[k]\<close> holds a number\<close>
  "row_num row k = (case obj_get row k of Some (JNum v) \<Rightarrow> v | _ \<Rightarrow> 0)"

definition emo_rows :: "host \<Rightarrow> Store \<Rightarrow> jsstring list \<Rightarrow> jsstring \<Rightarrow> row list" where
  "emo_rows H store eps tableKey =
     map (\<lambda>ep. fill_row (ratio_map H (js ''emo'') (slot_rows store ep tableKey)) EMO_ORDER
                  (base_row ep)) eps"

fun foldl_err :: "('s \<Rightarrow> 'a \<Rightarrow> error + 's) \<Rightarrow> 's \<Rightarrow> 'a list \<Rightarrow> error + 's" where
  \<comment> \<open>a loop whose body may throw: the first exception ends it\<close>
  "foldl_err f s [] = Inr s"
| "foldl_err f s (x # xs) = (case f s x of Inl e \<Rightarrow> Inl e | Inr s' \<Rightarrow> foldl_err f s' xs)"

text \<open>
  \<open>funcMean[func] = funcMean[func] ?? []; funcMean[func].push(safeNumber(r.ratio))\<close>.
  The read goes through the prototype: for a tag that names a member of
  \<open>Object.prototype\<close> it finds that member, which is not nullish and has no \<open>push\<close>,
  and the call throws a TypeError.
\<close>

definition funcMean_push :: "host \<Rightarrow> (rat list) jsobj \<Rightarrow> row \<Rightarrow> error + (rat list) jsobj" where
  "funcMean_push H fm r =
     (let func = row_tag H (js ''func'') r
      in case obj_read fm func of
           Own arr \<Rightarrow> Inr (obj_set fm func (arr @ [row_ratio H r]))
         | Undefined \<Rightarrow> Inr (obj_set fm func [row_ratio H r])
         | Inherited k \<Rightarrow> Inl TypeError)"

definition funcMean :: "host \<Rightarrow> Store \<Rightarrow> jsstring list \<Rightarrow> jsstring
    \<Rightarrow> error + (rat list) jsobj" where
  "funcMean H store eps tableKey =
     foldl_err (\<lambda>fm ep. foldl_err (funcMean_push H) fm (slot_rows store ep tableKey)) [] eps"

definition funcScores :: "(rat list) jsobj \<Rightarrow> (jsstring \<times> rat) list" where
  "funcScores fm =
     sort_key (\<lambda>(k, avg). - avg)
       (map (\<lambda>(k, arr). (k, sum_list arr / max 1 (of_nat (length arr)))) fm)"

definition slice_end :: "rat option \<Rightarrow> nat" where
  \<comment> \<open>the end index of \<open>slice\<close>: truncated to an integer, and 0 for NaN\<close>
  "slice_end e = (case e of Some q \<Rightarrow> nat (js_trunc q) | None \<Rightarrow> 0)"

definition topKeys :: "(rat list) jsobj \<Rightarrow> jsnumber \<Rightarrow> jsstring list" where
  \<comment> \<open>\<open>funcScores.slice(0, Math.max(3, Math.min(12, distStackTopN))).map((x) => x[0])\<close>\<close>
  "topKeys fm distStackTopN =
     map fst (take (slice_end (clamp_number 3 12 distStackTopN)) (funcScores fm))"

definition func_colors :: "jsstring list \<Rightarrow> jsstring jsobj" where
  "func_colors ks =
     foldl (\<lambda>colors k. obj_set colors k
              (if k = js ''other'' then js ''#94a3b8''
               else stableColorFromKey (js ''func_'' @ k))) [] ks"

definition func_row :: "host \<Rightarrow> Store \<Rightarrow> jsstring \<Rightarrow> jsstring list \<Rightarrow> jsstring \<Rightarrow> row" where
  "func_row H store tableKey tops ep =
     (let table = slot_rows store ep tableKey;
          m = ratio_map H (js ''func'') table;
          row = fill_row m tops (base_row ep);
          sumTop = foldl (\<lambda>s k. s + row_num row k) 0 tops
      in obj_set row (js ''other'') (JNum (max 0 (1 - sumTop))))"

definition distCompareData :: "host \<Rightarrow> Store \<Rightarrow> jsstring list \<Rightarrow> DistKind \<Rightarrow> jsnumber
    \<Rightarrow> error + DistCompare" where
  "distCompareData H store distCompareEps distKind distStackTopN =
     (if distCompareEps = [] then Inr emptyDistCompare
      else if isEmo distKind then
        (let tableKey = emoTableKey distKind;
             keys = EMO_ORDER
         in if \<not> hasAny store distCompareEps tableKey then Inr emptyDistCompare
            else Inr \<lparr>dc_rows = emo_rows H store distCompareEps tableKey, dc_keys = keys,
                       dc_label = emoLabel distKind, dc_colors = EMO_COLOR_MAP\<rparr>)
      else
        (let tableKey = funcTableKey distKind
         in if \<not> hasAny store distCompareEps tableKey then Inr emptyDistCompare
            else
              (case funcMean H store distCompareEps tableKey of
                 Inl e \<Rightarrow> Inl e
               | Inr fm \<Rightarrow>
                   let tops = topKeys fm distStackTopN;
                       keys = tops @ [js ''other'']
                   in Inr \<lparr>dc_rows = map (func_row H store tableKey tops) distCompareEps,
                            dc_keys = keys, dc_label = funcLabel distKind,
                            dc_colors = func_colors keys\<rparr>)))"

definition dist_row :: "jsstring \<Rightarrow> jsstring \<Rightarrow> rat \<Rightarrow> row" where
  \<comment> \<open>the parsed CSV row \<open>{[field]: tag, ratio: q}\<close>\<close>
  "dist_row field tag q = [(field, JStr tag), (js ''ratio'', JNum q)]"

section \<open>A concrete host for the examples\<close>

text \<open>
  The examples below run on a small host. It agrees with the real library on the inputs
  that occur in them: \<open>Number\<close> on the empty string and on decimal digit strings,
  \<open>String\<close> on natural numbers, \<open>toLowerCase\<close> on ASCII, \<open>JSON.parse\<close> on the
  texts \<open>{}\<close> and \<open>null\<close>, and the CSV parser on comma-separated text without quotes whose
  cells are digit strings (typed as numbers), empty (null) or other text (strings).
\<close>

definition ascii_lower :: "16 word \<Rightarrow> 16 word" where
  "ascii_lower c = (if 0x41 \<le> c \<and> c \<le> 0x5A then c + 0x20 else c)"

definition Number_str0 :: "jsstring \<Rightarrow> rat option" where
  "Number_str0 s = map_option of_nat (digits_val 0 s)"

fun dec_digits :: "nat \<Rightarrow> jsstring" where
  "dec_digits n =
     (if n < 10 then [of_nat (48 + n)]
      else dec_digits (n div 10) @ [of_nat (48 + n mod 10)])"

declare dec_digits.simps [simp del]

definition String_num0 :: "rat \<Rightarrow> jsstring" where
  "String_num0 q = (if 0 \<le> q \<and> of_int \<lfloor>q\<rfloor> = q then dec_digits (nat \<lfloor>q\<rfloor>) else js ''NaN'')"

fun split_on :: "'a \<Rightarrow> 'a list \<Rightarrow> 'a list list" where
  "split_on d [] = [[]]"
| "split_on d (c # cs) =
     (if c = d then [] # split_on d cs
      else (case split_on d cs of
              f # fs \<Rightarrow> (c # f) # fs
            | [] \<Rightarrow> [[c]]))"

definition csv_cell :: "jsstring \<Rightarrow> jsval" where
  "csv_cell s =
     (if s = [] then JNull
      else (case digits_val 0 s of Some n \<Rightarrow> JNum (of_nat n) | None \<Rightarrow> JStr s))"

definition parseCsv0 :: "jsstring \<Rightarrow> error + row list" where
  "parseCsv0 text =
     (case filter (\<lambda>l. l \<noteq> []) (split_on 0x0A text) of
        [] \<Rightarrow> Inr []
      | header # lines \<Rightarrow>
          Inr (map (\<lambda>l. zip (split_on 0x2C header) (map csv_cell (split_on 0x2C l))) lines))"

definition JSON_parse0 :: "jsstring \<Rightarrow> error + json" where
  "JSON_parse0 text =
     (if text = js ''{}'' then Inr (JsonObj [])
      else if text = js ''null'' then Inr JsonNull
      else Inl JsonSyntaxError)"

definition H0 :: host where
  "H0 = \<lparr>toLowerCase = map ascii_lower, Number_str = Number_str0, String_num = String_num0,
          parseCsv = parseCsv0, JSON_parse = JSON_parse0\<rparr>"

definition curve_row :: "jsstring \<Rightarrow> rat \<Rightarrow> rat \<Rightarrow> row" where
  \<comment> \<open>the parsed CSV row \<open>{minute: m, [seriesKey]: v}\<close>\<close>
  "curve_row seriesKey m v = [(js ''minute'', JNum m), (seriesKey, JNum v)]"

definition example_peak_rows :: "row list" where
  "example_peak_rows =
     [curve_row (js ''v'') 1 5, curve_row (js ''v'') 2 9, curve_row (js ''v'') 3 3]"

definition example_tie_rows :: "row list" where
  "example_tie_rows = [curve_row (js ''v'') 5 9, curve_row (js ''v'') 2 9]"

definition example_duplicate_rows :: "row list" where
  \<comment> \<open>two rows of minute 1\<close>
  "example_duplicate_rows = [curve_row (js ''v'') 1 5, curve_row (js ''v'') 1 2]"

definition example_curve :: "row list" where
  \<comment> \<open>unsorted, with minute 1 twice\<close>
  "example_curve =
     [curve_row (js ''v'') 3 1, curve_row (js ''v'') 1 5, curve_row (js ''v'') 1 2,
      curve_row (js ''v'') 2 4, curve_row (js ''v'') 7 4]"

definition store_inv :: "host \<Rightarrow> Store \<Rightarrow> bool" where
  "store_inv H s \<longleftrightarrow> set (episodes s) = store_episode_union H s \<and> distinct (episodes s)"




definition func_file_3 :: "jsstring \<times> jsstring" where
  "func_file_3 =
     (js ''danmaku_func_dist_ep3.csv'', js ''func,ratio,cnt'' @ [0x0A] @ js ''greet,1,40'' @ [0x0A])"




definition emo_table_3 :: "row list" where
  "emo_table_3 = [[(js ''emo'', JStr (js ''laugh'')), (js ''ratio'', JNum 1), (js ''cnt'', JNum 40)]]"

definition func_table_3 :: "row list" where
  "func_table_3 = [[(js ''func'', JStr (js ''greet'')), (js ''ratio'', JNum 1), (js ''cnt'', JNum 40)]]"

definition store_3 :: Store where
  "store_3 = initialStore\<lparr>
     tablesByEp := [(js ''3'', [(js ''danmaku_emo_dist'', emo_table_3)])],
     episodes := [js ''3'']\<rparr>"


definition store_3_func :: Store where
  "store_3_func = store_3\<lparr>
     tablesByEp := [(js ''3'', [(js ''danmaku_emo_dist'', emo_table_3),
                               (js ''danmaku_func_dist'', func_table_3)])]\<rparr>"

definition example_func_store :: Store where
  \<comment> \<open>episode 1: greet 0.4, spoiler 0.3, other_tag 0.3; episode 2: greet 0.1, spoiler 0.5,
      hype 0.4\<close>
  "example_func_store = initialStore\<lparr>
     tablesByEp :=
       [(js ''1'', [(js ''danmaku_func_dist'',
           [dist_row (js ''func'') (js ''greet'') (4 / 10),
            dist_row (js ''func'') (js ''spoiler'') (3 / 10),
            dist_row (js ''func'') (js ''other_tag'') (3 / 10)])]),
        (js ''2'', [(js ''danmaku_func_dist'',
           [dist_row (js ''func'') (js ''greet'') (1 / 10),
            dist_row (js ''func'') (js ''spoiler'') (5 / 10),
            dist_row (js ''func'') (js ''hype'') (4 / 10)])])],
     episodes := [js ''1'', js ''2'']\<rparr>"

definition other_tag_table :: "row list" where
  "other_tag_table =
     [dist_row (js ''func'') (js ''a'') (1 / 2), dist_row (js ''func'') (js ''other'') (1 / 2)]"

definition other_tag_store :: Store where
  \<comment> \<open>episode 1 with the two function tags \<open>a\<close> and \<open>other\<close>, half each\<close>
  "other_tag_store = initialStore\<lparr>
     tablesByEp := [(js ''1'', [(js ''danmaku_func_dist'', other_tag_table)])],
     episodes := [js ''1'']\<rparr>"

definition mval :: "rat jsobj \<Rightarrow> jsstring \<Rightarrow> rat" where
  \<comment> \<open>\<open>m[k] ?? 0\<close>\<close>
  "mval m k = (case obj_get m k of Some v \<Rightarrow> v | None \<Rightarrow> 0)"

definition example_func_mean :: "(rat list) jsobj" where
  "example_func_mean =
     [(js ''greet'', [2 / 5, 1 / 10]), (js ''spoiler'', [3 / 10, 1 / 2]),
      (js ''other_tag'', [3 / 10]), (js ''hype'', [2 / 5])]"

definition example_func_result :: DistCompare where
  "example_func_result =
     \<lparr>dc_rows =
        [[(js ''episode'', JStr ([0x7B2C] @ js ''1'' @ [0x96C6])), (js ''ep'', JStr (js ''1'')),
          (js ''spoiler'', JNum (3 / 10)), (js ''hype'', JNum 0),
          (js ''other_tag'', JNum (3 / 10)), (js ''other'', JNum (2 / 5))],
         [(js ''episode'', JStr ([0x7B2C] @ js ''2'' @ [0x96C6])), (js ''ep'', JStr (js ''2'')),
          (js ''spoiler'', JNum (1 / 2)), (js ''hype'', JNum (2 / 5)),
          (js ''other_tag'', JNum 0), (js ''other'', JNum (1 / 10))]],
      dc_keys = [js ''spoiler'', js ''hype'', js ''other_tag'', js ''other''],
      dc_label = funcLabel func_danmaku,
      dc_colors =
        [(js ''spoiler'', js ''#ec3c7c''), (js ''hype'', js ''#ec3c5f''),
         (js ''other_tag'', js ''#1569d1''), (js ''other'', js ''#94a3b8'')]\<rparr>"

definition other_tag_result :: DistCompare where
  "other_tag_result =
     \<lparr>dc_rows =
        [[(js ''episode'', JStr ([0x7B2C] @ js ''1'' @ [0x96C6])), (js ''ep'', JStr (js ''1'')),
          (js ''a'', JNum (1 / 2)), (js ''other'', JNum 0)]],
      dc_keys = [js ''a'', js ''other'', js ''other''],
      dc_label = funcLabel func_danmaku,
      dc_colors = [(js ''a'', js ''#d11557''), (js ''other'', js ''#94a3b8'')]\<rparr>"

section \<open>Verification: peak detection\<close>

lemma Max_Cons_le:
  assumes "\<forall>x\<in>set rs. f x \<le> (f r :: rat)"
  shows "Max (f ` set (r # rs)) = f r"
  using assms by (auto intro!: Max_eqI)

lemma Max_Cons_gt:
  assumes "x \<in> set rs" "f x > (f r :: rat)"
  shows "Max (f ` set (r # rs)) = Max (f ` set rs)" "Max (f ` set rs) > f r"
proof -
  have ne: "f ` set rs \<noteq> {}" using assms by auto
  have "f x \<le> Max (f ` set rs)" using assms by (intro Max_ge) auto
  with assms show gt: "Max (f ` set rs) > f r" by linarith
  have "Max (f ` set (r # rs)) = max (f r) (Max (f ` set rs))"
    using ne by simp
  with gt show "Max (f ` set (r # rs)) = Max (f ` set rs)" by (simp add: max_def)
qed

lemma first_max_Cons_le:
  assumes "\<forall>x\<in>set rs. row_value H k x \<le> row_value H k r"
  shows "first_max H k (r # rs) = Some r"
  unfolding first_max_def using Max_Cons_le[of rs "row_value H k" r, OF assms] by simp

lemma first_max_Cons_gt:
  assumes "x \<in> set rs" "row_value H k x > row_value H k r"
  shows "first_max H k (r # rs) = first_max H k rs"
  unfolding first_max_def using Max_Cons_gt[of x rs "row_value H k" r, OF assms] by simp

lemma peak_loop_Some:
  "peak_loop H k rs (Some m0) (Some v0) =
     (if \<forall>r\<in>set rs. row_value H k r \<le> v0 then (Some m0, Some v0)
      else (case first_max H k rs of
              Some r \<Rightarrow> (Some (row_minute H r), Some (row_value H k r))
            | None \<Rightarrow> (None, None)))"
proof (induction rs arbitrary: m0 v0)
  case Nil
  then show ?case by simp
next
  case (Cons r rs)
  let ?a = "row_value H k r"
  show ?case
  proof (cases "?a > v0")
    case True
    then have step: "peak_loop H k (r # rs) (Some m0) (Some v0) =
        peak_loop H k rs (Some (row_minute H r)) (Some ?a)"
      by (simp add: Let_def)
    have notall: "\<not> (\<forall>x\<in>set (r # rs). row_value H k x \<le> v0)" using True by auto
    show ?thesis
    proof (cases "\<forall>x\<in>set rs. row_value H k x \<le> ?a")
      case all: True
      have "peak_loop H k rs (Some (row_minute H r)) (Some ?a) = (Some (row_minute H r), Some ?a)"
        unfolding Cons.IH using all by simp
      then show ?thesis
        unfolding step using True first_max_Cons_le[OF all] by auto
    next
      case ex: False
      then obtain x where x: "x \<in> set rs" "row_value H k x > ?a" by auto
      have "peak_loop H k rs (Some (row_minute H r)) (Some ?a) =
           (case first_max H k rs of
              Some r \<Rightarrow> (Some (row_minute H r), Some (row_value H k r))
            | None \<Rightarrow> (None, None))"
        unfolding Cons.IH by (simp only: if_not_P[OF ex])
      then show ?thesis
        unfolding step by (simp only: if_not_P[OF notall] first_max_Cons_gt[OF x])
    qed
  next
    case False
    then have step: "peak_loop H k (r # rs) (Some m0) (Some v0) = peak_loop H k rs (Some m0) (Some v0)"
      by (simp add: Let_def)
    show ?thesis
    proof (cases "\<forall>x\<in>set rs. row_value H k x \<le> v0")
      case all: True
      then have all': "\<forall>x\<in>set (r # rs). row_value H k x \<le> v0" using False by auto
      show ?thesis unfolding step Cons.IH by (simp only: if_P[OF all] if_P[OF all'])
    next
      case ex: False
      then obtain x where x: "x \<in> set rs" "row_value H k x > v0" by auto
      then have x': "row_value H k x > ?a" using False by linarith
      have notall: "\<not> (\<forall>x\<in>set (r # rs). row_value H k x \<le> v0)" using ex by auto
      show ?thesis unfolding step Cons.IH
        by (simp only: if_not_P[OF ex] if_not_P[OF notall] first_max_Cons_gt[OF x(1) x'])
    qed
  qed
qed

lemma first_max_Some:
  assumes "rs \<noteq> []"
  shows "\<exists>r. first_max H k rs = Some r \<and> r \<in> set rs \<and> row_value H k r = Max (row_value H k ` set rs)"
proof -
  have "Max (row_value H k ` set rs) \<in> row_value H k ` set rs"
    using assms by (intro Max_in) auto
  then obtain x where "x \<in> set rs" "row_value H k x = Max (row_value H k ` set rs)" by auto
  then show ?thesis
    unfolding first_max_def
    by (cases "find (\<lambda>r. row_value H k r = Max (row_value H k ` set rs)) rs")
       (auto simp: find_None_iff find_Some_iff)
qed

lemma computePeak_Cons:
  "computePeak H (r # rs) k =
     (case peak_loop H k rs (Some (row_minute H r)) (Some (row_value H k r)) of
        (Some bestMinute, Some bestVal) \<Rightarrow>
          if bestVal < 0 then None
          else Some \<lparr>peak_minute = bestMinute, peak_value = bestVal\<rparr>
      | _ \<Rightarrow> None)"
  by (simp add: computePeak_def Let_def)

lemma computePeak_char:
  "computePeak H rows k =
     (if rows = [] \<or> Max (row_value H k ` set rows) < 0 then None
      else map_option (peak_of_row H k) (first_max H k rows))"
proof (cases rows)
  case Nil
  then show ?thesis by (simp add: computePeak_def)
next
  case (Cons r rs)
  let ?a = "row_value H k r"
  show ?thesis
  proof (cases "\<forall>x\<in>set rs. row_value H k x \<le> ?a")
    case True
    have M: "Max (row_value H k ` set (r # rs)) = ?a"
      using True by (rule Max_Cons_le)
    have pl: "peak_loop H k rs (Some (row_minute H r)) (Some ?a) = (Some (row_minute H r), Some ?a)"
      unfolding peak_loop_Some using True by simp
    show ?thesis unfolding Cons computePeak_Cons pl M first_max_Cons_le[OF True]
      by (simp add: peak_of_row_def)
  next
    case False
    then obtain y where y: "y \<in> set rs" "row_value H k y > ?a" by auto
    then have ne: "rs \<noteq> []" by auto
    note M = Max_Cons_gt[OF y]
    obtain z where z: "first_max H k rs = Some z" "row_value H k z = Max (row_value H k ` set rs)"
      using first_max_Some[of rs H k] ne by auto
    have pl: "peak_loop H k rs (Some (row_minute H r)) (Some ?a) = (Some (row_minute H z), Some (row_value H k z))"
      unfolding peak_loop_Some using False z(1) by auto
    show ?thesis unfolding Cons computePeak_Cons pl M(1) first_max_Cons_gt[OF y] z(1)
      using z(2) by (simp add: peak_of_row_def)
  qed
qed



text \<open>
  Claim C4, as the code has it. \<open>computePeak\<close> returns none exactly when the series is
  empty or the maximum of the key over all rows is negative; otherwise it returns the
  minute and value of the first row, in the order in which the rows were passed, that
  holds the maximum. The function does not sort: the first occurrence is the first in
  minute-ascending order when the rows are passed sorted by minute, as its callers do
  (\<open>curveData\<close> is sorted before the call). For the series \<open>[(1,5),(2,9),(3,3)]\<close> on
  key \<open>v\<close> the result is minute 2, value 9.
\<close>

theorem computePeak_first_occurrence:
  "computePeak H curveRows seriesKey =
     (if curveRows = [] \<or> Max (row_value H seriesKey ` set curveRows) < 0 then None
      else map_option (peak_of_row H seriesKey) (first_max H seriesKey curveRows))
   \<and> (sorted (map (row_minute H) curveRows) \<longrightarrow>
        computePeak H curveRows seriesKey = findPeak_spec H curveRows seriesKey)
   \<and> computePeak H example_peak_rows (js ''v'') = Some \<lparr>peak_minute = 2, peak_value = 9\<rparr>"
proof (intro conjI impI)
  show "computePeak H curveRows seriesKey =
     (if curveRows = [] \<or> Max (row_value H seriesKey ` set curveRows) < 0 then None
      else map_option (peak_of_row H seriesKey) (first_max H seriesKey curveRows))"
    by (rule computePeak_char)
next
  assume "sorted (map (row_minute H) curveRows)"
  then have "sort_key (row_minute H) curveRows = curveRows"
    by (rule sort_key_id_if_sorted)
  then show "computePeak H curveRows seriesKey = findPeak_spec H curveRows seriesKey"
    by (simp add: computePeak_char findPeak_spec_def)
next
  show "computePeak H example_peak_rows (js ''v'') = Some \<lparr>peak_minute = 2, peak_value = 9\<rparr>"
    by (simp add: computePeak_def example_peak_rows_def row_minute_def row_value_def
        curve_row_def safeNumber_def obj_get_def js_def)
qed

text \<open>The theorem at the series of the specification, which is sorted by minute.\<close>

theorem computePeak_first_occurrence_witness:
  "sorted (map (row_minute H0) example_peak_rows)
   \<and> computePeak H0 example_peak_rows (js ''v'') = findPeak_spec H0 example_peak_rows (js ''v'')
   \<and> computePeak H0 example_peak_rows (js ''v'') = Some \<lparr>peak_minute = 2, peak_value = 9\<rparr>"
proof -
  have srt: "sorted (map (row_minute H0) example_peak_rows)"
    by (simp add: example_peak_rows_def row_minute_def curve_row_def safeNumber_def
        obj_get_def js_def)
  with computePeak_first_occurrence[of H0 example_peak_rows "js ''v''"] show ?thesis
    by blast
qed

text \<open>
  Claim C4 as it is worded, for a series that is not sorted by minute: with the rows
  \<open>(5,9)\<close> and \<open>(2,9)\<close> passed in this order the code returns minute 5, while the
  first occurrence of the maximum in the minute-ascending order is minute 2.
\<close>

theorem computePeak_unsorted_tie_counterexample:
  "computePeak H0 example_tie_rows (js ''v'') = Some \<lparr>peak_minute = 5, peak_value = 9\<rparr>
   \<and> findPeak_spec H0 example_tie_rows (js ''v'') = Some \<lparr>peak_minute = 2, peak_value = 9\<rparr>
   \<and> computePeak H0 example_tie_rows (js ''v'') \<noteq> findPeak_spec H0 example_tie_rows (js ''v'')"
  by (simp add: computePeak_def findPeak_spec_def first_max_def peak_of_row_def
      example_tie_rows_def row_minute_def row_value_def curve_row_def safeNumber_def
      obj_get_def js_def)

section \<open>Verification: top-K intervals\<close>

lemma scan_end_bounds:
  "j < length ms \<Longrightarrow> j \<le> scan_end ms e j \<and> scan_end ms e j < length ms"
proof (induction ms e j rule: scan_end.induct)
  case (1 ms e j)
  show ?case
  proof (cases "j + 1 < length ms \<and> num_le (ms ! (j + 1)) e")
    case True
    then have "scan_end ms e j = scan_end ms e (j + 1)"
      by (subst scan_end.simps) simp
    with True "1.IH" show ?thesis by auto
  next
    case False
    then have "scan_end ms e j = j" by (subst scan_end.simps) auto
    with "1.prems" show ?thesis by simp
  qed
qed

lemma scan_end_le:
  "ms ! j \<le> e \<Longrightarrow> ms ! scan_end ms (Some e) j \<le> e"
proof (induction ms "Some e" j rule: scan_end.induct)
  case (1 ms j)
  show ?case
  proof (cases "j + 1 < length ms \<and> num_le (ms ! (j + 1)) (Some e)")
    case True
    then have "scan_end ms (Some e) j = scan_end ms (Some e) (j + 1)"
      by (subst scan_end.simps) simp
    with True "1.hyps" show ?thesis by (auto simp: num_le_def)
  next
    case False
    then have "scan_end ms (Some e) j = j" by (subst scan_end.simps) auto
    with "1.prems" show ?thesis by simp
  qed
qed

lemma scan_end_next:
  "Suc (scan_end ms (Some e) j) < length ms \<Longrightarrow> e < ms ! Suc (scan_end ms (Some e) j)"
proof (induction ms "Some e" j rule: scan_end.induct)
  case (1 ms j)
  show ?case
  proof (cases "j + 1 < length ms \<and> num_le (ms ! (j + 1)) (Some e)")
    case True
    then have "scan_end ms (Some e) j = scan_end ms (Some e) (j + 1)"
      by (subst scan_end.simps) simp
    with True "1.hyps" "1.prems" show ?thesis by auto
  next
    case False
    then have eq: "scan_end ms (Some e) j = j" by (subst scan_end.simps) auto
    with "1.prems" False show ?thesis by (auto simp: num_le_def)
  qed
qed

lemma make_candidate_ok:
  assumes srt: "sorted ms" and i: "i < length ms" and w: "1 \<le> w"
  shows "cand_ok ms (make_candidate ms ps (Some w) i)"
proof -
  let ?e = "ms ! i + (w - 1)"
  let ?j = "scan_end ms (Some ?e) i"
  have b: "i \<le> ?j" "?j < length ms" using scan_end_bounds[OF i] by auto
  have le: "ms ! ?j \<le> ?e" using w by (intro scan_end_le) simp
  have after: "ms ! ?j < ms ! t" if t: "?j < t" "t < length ms" for t
  proof -
    have "Suc ?j < length ms" using t by simp
    then have "?e < ms ! Suc ?j" by (rule scan_end_next)
    moreover have "ms ! Suc ?j \<le> ms ! t"
      using srt t by (intro sorted_nth_mono) auto
    ultimately show ?thesis using le by linarith
  qed
  show ?thesis
    using b after by (simp add: cand_ok_def make_candidate_def Let_def)
qed

lemma cand_ok_disjoint:
  assumes srt: "sorted ms" and a: "cand_ok ms a" and b: "cand_ok ms b"
    and no: "\<not> overlaps (cand_range a) (cand_range b)"
  shows "iv_disjoint (cand_interval a) (cand_interval b)"
proof -
  have cases: "cand_j a < cand_i b \<or> cand_j b < cand_i a"
    using no a b by (auto simp: overlaps_def cand_range_def cand_ok_def)
  have one: "iv_disjoint (cand_interval x) (cand_interval y)"
    if x: "cand_ok ms x" and y: "cand_ok ms y" and lt: "cand_j x < cand_i y" for x y
  proof -
    have iy: "cand_i y < length ms" using y by (simp add: cand_ok_def)
    have "\<forall>t. cand_j x < t \<and> t < length ms \<longrightarrow> cand_end x < ms ! t"
      using x unfolding cand_ok_def by blast
    with lt iy have "cand_end x < ms ! cand_i y" by blast
    then have 1: "cand_end x < cand_start y"
      using y by (simp add: cand_ok_def)
    have "ms ! cand_i y \<le> ms ! cand_j y"
      using srt y by (intro sorted_nth_mono) (auto simp: cand_ok_def)
    then have 2: "cand_start y \<le> cand_end y" using y by (simp add: cand_ok_def)
    show ?thesis using 1 2 by (simp add: iv_disjoint_def cand_interval_def)
  qed
  from cases show ?thesis
  proof
    assume "cand_j a < cand_i b"
    then show ?thesis using one[OF a b] by simp
  next
    assume "cand_j b < cand_i a"
    then have "iv_disjoint (cand_interval b) (cand_interval a)" using one[OF b a] by simp
    then show ?thesis by (simp add: iv_disjoint_def max.commute min.commute)
  qed
qed

lemma cand_ok_self_overlap:
  assumes srt: "sorted ms" and a: "cand_ok ms a"
  shows "\<not> iv_disjoint (cand_interval a) (cand_interval a)"
proof -
  have "ms ! cand_i a \<le> ms ! cand_j a"
    using srt a by (intro sorted_nth_mono) (auto simp: cand_ok_def)
  then show ?thesis using a by (simp add: iv_disjoint_def cand_interval_def cand_ok_def)
qed

lemma pick_loop_chosen:
  "pick_loop kk cs (map cand_range chosen) (map cand_interval chosen)
     = map cand_interval (chosen_loop kk cs chosen)"
proof (induction cs arbitrary: chosen)
  case Nil
  then show ?case by simp
next
  case (Cons c cs)
  have ex: "list_ex (\<lambda>u. overlaps u (cand_i c, cand_j c)) (map cand_range chosen)
      = list_ex (\<lambda>u. overlaps (cand_range u) (cand_range c)) chosen"
    by (simp add: list_ex_iff cand_range_def)
  have app: "map cand_range chosen @ [(cand_i c, cand_j c)] = map cand_range (chosen @ [c])"
    "map cand_interval chosen @ [\<lparr>iv_start = cand_start c, iv_end = cand_end c, iv_score = cand_score c\<rparr>]
       = map cand_interval (chosen @ [c])"
    by (simp_all add: cand_range_def cand_interval_def)
  show ?case
    unfolding pick_loop.simps chosen_loop.simps ex app Cons.IH by simp
qed

lemma chosen_loop_subset:
  "set (chosen_loop kk cs chosen) \<subseteq> set cs \<union> set chosen"
proof (induction cs arbitrary: chosen)
  case Nil
  then show ?case by simp
next
  case (Cons c cs)
  from Cons.IH[of chosen] Cons.IH[of "chosen @ [c]"] show ?case
    by (simp only: chosen_loop.simps split: if_splits) auto
qed

lemma chosen_loop_pairwise:
  "sorted_wrt (\<lambda>a b. \<not> overlaps (cand_range a) (cand_range b)) chosen \<Longrightarrow>
   sorted_wrt (\<lambda>a b. \<not> overlaps (cand_range a) (cand_range b)) (chosen_loop kk cs chosen)"
proof (induction cs arbitrary: chosen)
  case Nil
  then show ?case by simp
next
  case (Cons c cs)
  show ?case
  proof (cases "num_ge (of_nat (length chosen)) kk")
    case True
    then show ?thesis using Cons.prems by simp
  next
    case nk: False
    show ?thesis
    proof (cases "list_ex (\<lambda>u. overlaps (cand_range u) (cand_range c)) chosen")
      case True
      then show ?thesis using nk Cons by simp
    next
      case False
      then have "sorted_wrt (\<lambda>a b. \<not> overlaps (cand_range a) (cand_range b)) (chosen @ [c])"
        using Cons.prems by (simp add: sorted_wrt_append list_ex_iff)
      then show ?thesis using nk False Cons.IH by simp
    qed
  qed
qed

lemma picked_disjoint:
  assumes srt: "sorted ms" and ok: "\<forall>c\<in>set cs. cand_ok ms c"
  shows "sorted_wrt iv_disjoint (pick_loop kk cs [] [])"
    and "\<forall>a\<in>set (pick_loop kk cs [] []). \<not> iv_disjoint a a"
proof -
  let ?ch = "chosen_loop kk cs []"
  have eq: "pick_loop kk cs [] [] = map cand_interval ?ch"
    using pick_loop_chosen[of kk cs "[]"] by simp
  have okch: "\<forall>c\<in>set ?ch. cand_ok ms c"
    using chosen_loop_subset[of kk cs "[]"] ok by auto
  have "sorted_wrt (\<lambda>a b. \<not> overlaps (cand_range a) (cand_range b)) ?ch"
    by (rule chosen_loop_pairwise) simp
  then have "sorted_wrt (\<lambda>a b. iv_disjoint (cand_interval a) (cand_interval b)) ?ch"
    by (rule sorted_wrt_mono_rel[rotated]) (use okch cand_ok_disjoint[OF srt] in auto)
  then show "sorted_wrt iv_disjoint (pick_loop kk cs [] [])"
    unfolding eq by (simp add: sorted_wrt_map)
  show "\<forall>a\<in>set (pick_loop kk cs [] []). \<not> iv_disjoint a a"
    unfolding eq using okch cand_ok_self_overlap[OF srt] by auto
qed

lemma sorted_wrt_irrefl_distinct:
  "sorted_wrt P xs \<Longrightarrow> \<forall>a\<in>set xs. \<not> P a a \<Longrightarrow> distinct xs"
  by (induction xs) auto

lemma sorted_wrt_sym_set:
  assumes "sorted_wrt P xs" "\<And>a b. P a b \<Longrightarrow> P b a" "a \<in> set xs" "b \<in> set xs" "a \<noteq> b"
  shows "P a b"
  using assms by (induction xs) auto

lemma iv_disjoint_sym: "iv_disjoint a b \<Longrightarrow> iv_disjoint b a"
  by (simp add: iv_disjoint_def max.commute min.commute)

text \<open>
  Claim C3, as the code has it. For every series (rows in any order, any values,
  duplicate minutes allowed), every series key, every window size that is not NaN and
  every \<open>k\<close>, NaN included, any two intervals at different positions of the result of
  \<open>topKIntervals\<close> satisfy \<open>max(start_i, start_j) > min(end_i, end_j)\<close>: no two
  returned intervals overlap, end points included.
\<close>

theorem topKIntervals_no_overlap:
  assumes "windowSize \<noteq> NaN"
    and "i < length (topKIntervals H curveRows seriesKey windowSize k)"
    and "j < length (topKIntervals H curveRows seriesKey windowSize k)"
    and "i \<noteq> j"
  shows "max (iv_start (topKIntervals H curveRows seriesKey windowSize k ! i))
             (iv_start (topKIntervals H curveRows seriesKey windowSize k ! j))
       > min (iv_end (topKIntervals H curveRows seriesKey windowSize k ! i))
             (iv_end (topKIntervals H curveRows seriesKey windowSize k ! j))"
proof (cases "curveRows = []")
  case True
  then show ?thesis using assms by (simp add: topKIntervals_def)
next
  case False
  obtain w where w: "clamp_number 1 20 windowSize = Some w" "1 \<le> w"
    using assms(1) by (cases windowSize) (auto simp: clamp_number_def)
  define rows where "rows = sort_key (row_minute H) curveRows"
  define ms where "ms = map (row_minute H) rows"
  define cs where "cs = sort_key (\<lambda>c. - cand_score c)
      (map (make_candidate ms (prefix_sums (map (row_value H seriesKey) rows)) (Some w))
         [0..<length rows])"
  define picked where "picked = pick_loop (clamp_number 1 5 k) cs [] []"
  have res: "topKIntervals H curveRows seriesKey windowSize k = sort_key iv_start picked"
    using False
    by (simp add: topKIntervals_def Let_def picked_def cs_def w(1) ms_def rows_def)
  have srt: "sorted ms" unfolding ms_def rows_def by (rule sorted_sort_key)
  have ok: "\<forall>c\<in>set cs. cand_ok ms c"
    unfolding cs_def using make_candidate_ok[OF srt _ w(2)] by (auto simp: ms_def)
  note pd = picked_disjoint[OF srt ok, of "clamp_number 1 5 k", folded picked_def]
  have dist: "distinct (sort_key iv_start picked)"
    using sorted_wrt_irrefl_distinct[OF pd] by simp
  let ?r = "sort_key iv_start picked"
  have ij: "i < length ?r" "j < length ?r" using assms res by auto
  then have ne: "?r ! i \<noteq> ?r ! j"
    using dist assms(4) by (simp add: nth_eq_iff_index_eq)
  have "?r ! i \<in> set picked" "?r ! j \<in> set picked"
    using ij nth_mem[of i ?r] nth_mem[of j ?r] by auto
  then have "iv_disjoint (?r ! i) (?r ! j)"
    using sorted_wrt_sym_set[OF pd(1) iv_disjoint_sym] ne by blast
  then show ?thesis unfolding res by (simp add: iv_disjoint_def)
qed

text \<open>The theorem at an unsorted series with a duplicate minute, window 2 and \<open>k = 3\<close>.\<close>

theorem topKIntervals_no_overlap_witness:
  "Fin 2 \<noteq> NaN
   \<and> (0::nat) < length (topKIntervals H0 example_curve (js ''v'') (Fin 2) (Fin 3))
   \<and> (1::nat) < length (topKIntervals H0 example_curve (js ''v'') (Fin 2) (Fin 3))
   \<and> (0::nat) \<noteq> 1
   \<and> max (iv_start (topKIntervals H0 example_curve (js ''v'') (Fin 2) (Fin 3) ! 0))
          (iv_start (topKIntervals H0 example_curve (js ''v'') (Fin 2) (Fin 3) ! 1))
     > min (iv_end (topKIntervals H0 example_curve (js ''v'') (Fin 2) (Fin 3) ! 0))
           (iv_end (topKIntervals H0 example_curve (js ''v'') (Fin 2) (Fin 3) ! 1))"
proof -
  have len: "length (topKIntervals H0 example_curve (js ''v'') (Fin 2) (Fin 3)) = 3"
    by code_simp
  show ?thesis
    using topKIntervals_no_overlap[of "Fin 2" 0 H0 example_curve "js ''v''" "Fin 3" 1]
    by (simp add: len)
qed

text \<open>
  Claim C3 as it is worded, for every window size: with the window size NaN the clamp
  \<open>Math.max(1, Math.min(20, NaN))\<close> is NaN, no row is ever inside a window that ends
  at NaN, and every candidate is a single row. Two rows of minute 1 are then two
  candidates with disjoint index ranges, and both are returned as the interval from
  minute 1 to minute 1.
\<close>

theorem topKIntervals_NaN_window_counterexample:
  "topKIntervals H0 example_duplicate_rows (js ''v'') NaN (Fin 2)
     = [\<lparr>iv_start = 1, iv_end = 1, iv_score = 5\<rparr>, \<lparr>iv_start = 1, iv_end = 1, iv_score = 2\<rparr>]
   \<and> \<not> max (iv_start (topKIntervals H0 example_duplicate_rows (js ''v'') NaN (Fin 2) ! 0))
            (iv_start (topKIntervals H0 example_duplicate_rows (js ''v'') NaN (Fin 2) ! 1))
       > min (iv_end (topKIntervals H0 example_duplicate_rows (js ''v'') NaN (Fin 2) ! 0))
             (iv_end (topKIntervals H0 example_duplicate_rows (js ''v'') NaN (Fin 2) ! 1))"
proof -
  have r: "topKIntervals H0 example_duplicate_rows (js ''v'') NaN (Fin 2)
     = [\<lparr>iv_start = 1, iv_end = 1, iv_score = 5\<rparr>, \<lparr>iv_start = 1, iv_end = 1, iv_score = 2\<rparr>]"
    by code_simp
  show ?thesis unfolding r by simp
qed

section \<open>Verification: the episode and table store\<close>

lemma set_foldl_set_add: "set (foldl set_add acc xs) = set acc \<union> set xs"
  by (induction xs arbitrary: acc) (auto simp: set_add_def)

lemma set_foldl_stats:
  "set (foldl (\<lambda>eps r. if stats_row_episode H r \<noteq> []
                        then set_add eps (stats_row_episode H r) else eps) acc rows)
   = set acc \<union> {ep \<in> stats_row_episode H ` set rows. ep \<noteq> []}"
  by (induction rows arbitrary: acc) (auto simp: set_add_def Let_def)

lemma set_mergeEpisodes:
  "set (mergeEpisodes H tables basic stats)
   = set (obj_keys tables) \<union> set (obj_keys basic) \<union> stats_episodes H stats"
  by (cases stats)
     (simp_all add: mergeEpisodes_def Let_def set_foldl_set_add set_foldl_stats
        stats_episodes_def)

lemma set_obj_insert_index: "set (obj_insert_index n k v ob) = insert (k, v) (set ob)"
  by (induction ob) (auto split: option.splits if_splits)

lemma map_of_obj_insert_index:
  "map_of ob k = None \<Longrightarrow>
   map_of (obj_insert_index n k v ob) k' = (if k' = k then Some v else map_of ob k')"
  by (induction ob) (auto split: option.splits if_splits)

lemma map_of_update_all:
  "map_of (map (\<lambda>(k', v'). if k' = k then (k, v) else (k', v')) ob) k'
   = (if k' = k then (if k \<in> fst ` set ob then Some v else None) else map_of ob k')"
  by (induction ob) (force simp: image_iff)+

lemma obj_get_obj_set:
  "obj_get (obj_set ob k v) k' = (if k' = k then Some v else obj_get ob k')"
proof (cases "map_of ob k")
  case None
  then show ?thesis
    by (auto simp: obj_get_def obj_set_def map_of_obj_insert_index map_add_def
        split: option.splits)
next
  case (Some a)
  then have "k \<in> fst ` set ob" by (metis map_of_eq_None_iff option.distinct(1))
  with Some show ?thesis
    by (simp add: obj_get_def obj_set_def map_of_update_all)
qed


lemma map_update_id:
  "\<forall>(k', v') \<in> set xs. k' = k \<longrightarrow> v' = v \<Longrightarrow>
   map (\<lambda>(k', v'). if k' = k then (k, v) else (k', v')) xs = xs"
  by (induction xs) auto

lemma obj_set_entries:
  "\<forall>(k', v') \<in> set (obj_set ob k v). k' = k \<longrightarrow> v' = v"
proof (cases "map_of ob k")
  case None
  then have "k \<notin> fst ` set ob" by (simp add: map_of_eq_None_iff)
  with None show ?thesis
    by (force simp: obj_set_def set_obj_insert_index split: option.splits)
next
  case (Some a)
  then show ?thesis by (auto simp: obj_set_def split: if_splits)
qed

lemma obj_set_idem: "obj_set (obj_set ob k v) k v = obj_set ob k v"
proof -
  have "map_of (obj_set ob k v) k = Some v"
    using obj_get_obj_set[of ob k v k] by (simp add: obj_get_def)
  then have "obj_set (obj_set ob k v) k v
      = map (\<lambda>(k', v'). if k' = k then (k, v) else (k', v')) (obj_set ob k v)"
    by (simp add: obj_set_def[of "obj_set ob k v"])
  also have "\<dots> = obj_set ob k v"
    by (rule map_update_id) (rule obj_set_entries)
  finally show ?thesis .
qed

lemma ingest_step_idem_aux:
  "ingestFileText H name content s = Inr s' \<Longrightarrow> ingestFileText H name content s' = Inr s'"
  by (auto simp: ingestFileText_def Let_def obj_get_obj_set obj_set_idem
      split: option.splits if_splits sum.splits prod.splits)

lemma distinct_foldl_set_add: "distinct acc \<Longrightarrow> distinct (foldl set_add acc xs)"
  by (induction xs arbitrary: acc) (auto simp: set_add_def)

lemma distinct_foldl_stats:
  "distinct acc \<Longrightarrow>
   distinct (foldl (\<lambda>eps r. if stats_row_episode H r \<noteq> []
                        then set_add eps (stats_row_episode H r) else eps) acc rows)"
  by (induction rows arbitrary: acc) (auto simp: set_add_def)

lemma distinct_mergeEpisodes: "distinct (mergeEpisodes H tables basic stats)"
  by (simp add: mergeEpisodes_def Let_def distinct_foldl_set_add distinct_foldl_stats)

lemma store_inv_initial: "store_inv H initialStore"
  by (simp add: store_inv_def initialStore_def store_episode_union_def stats_episodes_def obj_keys_def)

lemma store_inv_ingestFileText:
  "store_inv H s \<Longrightarrow> ingestFileText H name content s = Inr s' \<Longrightarrow> store_inv H s'"
  by (auto simp: ingestFileText_def Let_def store_inv_def store_episode_union_def
        set_mergeEpisodes distinct_mergeEpisodes
      split: option.splits if_splits sum.splits prod.splits)

lemma store_inv_step: "store_inv H s \<Longrightarrow> store_inv H (ingest_step H f s)"
  by (auto simp: ingest_step_def store_inv_ingestFileText split: sum.splits)

lemma store_inv_all: "store_inv H s \<Longrightarrow> store_inv H (ingest_all H fs s)"
  unfolding ingest_all_def by (induction fs arbitrary: s) (auto simp: store_inv_step)

text \<open>
  Claim C5. After every sequence of ingest operations from the empty store, the derived
  episode list holds exactly the union of the episode keys of the per-episode table map,
  the episode keys of the basic-stats map, and the episode identifiers embedded in the
  rows of the global scalar-stats table (and it holds each of them once).
\<close>

theorem episodes_union_invariant:
  "set (episodes (ingest_all H fs initialStore))
     = set (obj_keys (tablesByEp (ingest_all H fs initialStore)))
       \<union> set (obj_keys (basicStatsByEp (ingest_all H fs initialStore)))
       \<union> stats_episodes H (episodeStats (ingest_all H fs initialStore))
   \<and> distinct (episodes (ingest_all H fs initialStore))"
  using store_inv_all[OF store_inv_initial, of H fs]
  by (simp add: store_inv_def store_episode_union_def)

text \<open>
  Claim C6. For every store state, every file name and every text, of any table kind,
  ingesting the same file twice in a row gives the same store as ingesting it once: each
  update replaces its slot. This covers the files that are ignored and the parses that
  fail, which leave the store as it is.
\<close>

theorem ingest_idempotent:
  "ingest_step H (name, content) (ingest_step H (name, content) s)
     = ingest_step H (name, content) s"
proof (cases "ingestFileText H name content s")
  case (Inl e)
  then show ?thesis by (simp add: ingest_step_def)
next
  case (Inr s')
  then show ?thesis using ingest_step_idem_aux[OF Inr] by (simp add: ingest_step_def)
qed






lemma obj_get_Nil: "obj_get [] k = None"
  by (simp add: obj_get_def)

lemma table_slot_frame:
  assumes "ingestFileText H name content s = Inr s'"
    and "detectTableKey H name = Some (K, Some e)"
    and "K \<noteq> js ''episode_stats''" and "K \<noteq> js ''danmaku_basic_stats''"
  shows "episodeStats s' = episodeStats s" "basicStatsByEp s' = basicStatsByEp s"
    "loadedFiles s' = loadedFiles s"
    "(e', K') \<noteq> (e, K) \<Longrightarrow> table_slot s' e' K' = table_slot s e' K'"
    "episodes s' = mergeEpisodes H (tablesByEp s') (basicStatsByEp s') (episodeStats s') \<or> s' = s"
  using assms
  by (auto simp: ingestFileText_def Let_def table_slot_def obj_get_obj_set obj_get_Nil
      split: option.splits if_splits sum.splits prod.splits)

lemma table_slot_written:
  assumes "detectTableKey H name = Some (K, Some e)"
    and "K \<noteq> js ''episode_stats''" and "K \<noteq> js ''danmaku_basic_stats''"
    and "e \<noteq> []" and "parseCsv H content = Inr rows"
  shows "table_slot (ingest_step H (name, content) s) e K = Some rows"
  using assms
  by (auto simp: ingest_step_def ingestFileText_def Let_def table_slot_def obj_get_obj_set
      split: option.splits if_splits sum.splits prod.splits)

text \<open>
  Claim C10. For every ingest of a per-episode CSV table file, classified to the table
  kind \<open>K\<close> with the episode identifier \<open>e\<close>, the store after the ingest differs from
  the store before at most in the slot \<open>(e, K)\<close> and in the derived episode list: the
  global scalar-stats table, every basic-stats entry, the list of loaded files, every
  table slot of every other episode and every other table kind of episode \<open>e\<close> are
  unchanged.
\<close>

theorem ingest_table_frame:
  assumes "detectTableKey H name = Some (K, Some e)"
    and "K \<noteq> js ''episode_stats''" and "K \<noteq> js ''danmaku_basic_stats''"
  shows "episodeStats (ingest_step H (name, content) s) = episodeStats s
    \<and> basicStatsByEp (ingest_step H (name, content) s) = basicStatsByEp s
    \<and> loadedFiles (ingest_step H (name, content) s) = loadedFiles s
    \<and> (\<forall>e' K'. (e', K') \<noteq> (e, K) \<longrightarrow>
          table_slot (ingest_step H (name, content) s) e' K' = table_slot s e' K')"
proof (cases "ingestFileText H name content s")
  case (Inl err)
  then show ?thesis by (simp add: ingest_step_def)
next
  case (Inr s')
  then have "ingest_step H (name, content) s = s'" by (simp add: ingest_step_def)
  then show ?thesis using table_slot_frame[OF Inr assms] by simp
qed

text \<open>
  The theorem at the store holding the emotion table of episode 3, for the function
  table of the same episode: the emotion table stays, the function table is written.
\<close>

theorem ingest_table_frame_witness:
  "detectTableKey H0 (fst func_file_3) = Some (js ''danmaku_func_dist'', Some (js ''3''))
   \<and> js ''danmaku_func_dist'' \<noteq> js ''episode_stats''
   \<and> js ''danmaku_func_dist'' \<noteq> js ''danmaku_basic_stats''
   \<and> table_slot (ingest_step H0 func_file_3 store_3) (js ''3'') (js ''danmaku_emo_dist'')
       = table_slot store_3 (js ''3'') (js ''danmaku_emo_dist'')
   \<and> table_slot store_3 (js ''3'') (js ''danmaku_emo_dist'') = Some emo_table_3
   \<and> ingest_step H0 func_file_3 store_3 = store_3_func"
proof -
  have det: "detectTableKey H0 (fst func_file_3) = Some (js ''danmaku_func_dist'', Some (js ''3''))"
    by code_simp
  have ne: "js ''danmaku_func_dist'' \<noteq> js ''episode_stats''"
    "js ''danmaku_func_dist'' \<noteq> js ''danmaku_basic_stats''"
    by (simp_all add: js_def)
  have other: "(js ''3'', js ''danmaku_emo_dist'') \<noteq> (js ''3'', js ''danmaku_func_dist'')"
    by (simp add: js_def)
  have slot: "table_slot store_3 (js ''3'') (js ''danmaku_emo_dist'') = Some emo_table_3"
    by code_simp
  have step: "ingest_step H0 func_file_3 store_3 = store_3_func"
    by code_simp
  from ingest_table_frame[OF det ne, of "snd func_file_3" store_3] other
  have "table_slot (ingest_step H0 func_file_3 store_3) (js ''3'') (js ''danmaku_emo_dist'')
       = table_slot store_3 (js ''3'') (js ''danmaku_emo_dist'')"
    by simp
  with det ne slot step show ?thesis by simp
qed

section \<open>Verification: deterministic colours\<close>

lemma fnv_step:
  "uint (((h :: 32 word) XOR ucast (c :: 16 word)) * 16777619)
     = ((uint h XOR uint c) * 16777619) mod 2 ^ 32"
proof -
  have "uint (ucast c :: 32 word) = uint c"
    by (simp add: uint_up_ucast is_up)
  then show ?thesis
    by (simp add: uint_word_ariths uint_xor)
qed

lemma fnv_fold:
  "uint (foldl (\<lambda>h c. (h XOR ucast c) * 16777619) (h0 :: 32 word) (str :: jsstring))
     = foldl (\<lambda>hash b. ((hash XOR b) * 16777619) mod 2 ^ 32) (uint h0) (map uint str)"
proof (induction str arbitrary: h0)
  case Nil
  then show ?case by simp
next
  case (Cons c cs)
  show ?case by (simp add: Cons.IH fnv_step)
qed

lemma fnv1aHash32_spec: "fnv1aHash32 key = spec_fnv1a (map uint key)"
  unfolding fnv1aHash32_def spec_fnv1a_def fnv_fold by simp

lemma toHex_spec: "0 \<le> v + m \<Longrightarrow> toHex m v = spec_channel (v + m)"
proof -
  assume nn: "0 \<le> v + m"
  then have "0 \<le> (v + m) * 255 + 1 / 2" by simp
  then have "0 \<le> \<lfloor>(v + m) * 255 + 1 / 2\<rfloor>" by simp
  then show ?thesis
    by (simp add: toHex_def spec_channel_def Math_round_def round_def toString16_def
        mult.commute)
qed

lemma js_rem_frac: "0 \<le> x \<Longrightarrow> js_rem x 2 = 2 * frac (x / 2)"
  by (simp add: js_rem_def js_trunc_def frac_def algebra_simps)

lemma wave_bounds: "0 \<le> 1 - \<bar>2 * frac (q::rat) - 1\<bar>" "1 - \<bar>2 * frac q - 1\<bar> \<le> 1"
proof -
  have "0 \<le> frac q" "frac q < 1" by (simp_all add: frac_lt_1)
  then show "0 \<le> 1 - \<bar>2 * frac q - 1\<bar>" "1 - \<bar>2 * frac q - 1\<bar> \<le> 1"
    by linarith+
qed

lemma hslToHex_spec:
  assumes h: "0 \<le> h" "h < 360" and l: "l = 45 \<or> l = 58"
  shows "hslToHex (of_int h) 82 l = spec_hsl_to_hex h (82 / 100) (l / 100)"
proof -
  define c :: rat where "c = (1 - \<bar>2 * (l / 100) - 1\<bar>) * (82 / 100)"
  define t :: rat where "t = 1 - \<bar>2 * frac (of_int h / 60 / 2) - 1\<bar>"
  define m :: rat where "m = l / 100 - c / 2"
  have t: "0 \<le> t" "t \<le> 1" unfolding t_def using wave_bounds by auto
  have c: "0 \<le> c" "0 \<le> m" using l by (auto simp: c_def m_def)
  have x: "0 \<le> c * t" using t c by simp
  have rem: "js_rem (of_int h / 60) 2 = 2 * frac (of_int h / 60 / 2)"
    using h by (intro js_rem_frac) simp
  have hx: "toHex m (c * t) = spec_channel (c * t + m)" "toHex m c = spec_channel (c + m)"
    "toHex m 0 = spec_channel m"
    using c x toHex_spec[of "c * t" m] toHex_spec[of c m] toHex_spec[of 0 m] by simp_all
  have lhs: "hslToHex (of_int h) 82 l =
      (case (if h < 60 then (c, c * t, 0)
             else if h < 120 then (c * t, c, 0)
             else if h < 180 then (0, c, c * t)
             else if h < 240 then (0, c * t, c)
             else if h < 300 then (c * t, 0, c)
             else (c, 0, c * t)) of
         (r, g, b) \<Rightarrow> 0x23 # toHex m r @ toHex m g @ toHex m b)"
    using h unfolding hslToHex_def Let_def rem c_def[symmetric] m_def[symmetric] t_def[symmetric]
    by (auto simp: c_def m_def)
  have rhs: "spec_hsl_to_hex h (82 / 100) (l / 100) =
      (case (if h div 60 = 0 then (c, c * t, 0)
             else if h div 60 = 1 then (c * t, c, 0)
             else if h div 60 = 2 then (0, c, c * t)
             else if h div 60 = 3 then (0, c * t, c)
             else if h div 60 = 4 then (c * t, 0, c)
             else (c, 0, c * t)) of
         (r, g, b) \<Rightarrow> 0x23 # spec_channel (r + m) @ spec_channel (g + m) @ spec_channel (b + m))"
    unfolding spec_hsl_to_hex_def Let_def c_def m_def t_def by simp
  have d: "(h div 60 = 0) = (h < 60)" "(h div 60 = 1) = (60 \<le> h \<and> h < 120)"
    "(h div 60 = 2) = (120 \<le> h \<and> h < 180)" "(h div 60 = 3) = (180 \<le> h \<and> h < 240)"
    "(h div 60 = 4) = (240 \<le> h \<and> h < 300)"
    using h by presburger+
  show ?thesis unfolding lhs rhs d using hx by auto
qed

lemma stableColorFromKey_spec: "stableColorFromKey key = spec_colorFor (map uint key)"
proof -
  have suffix: "map uint (key @ js ''_l'') = map uint key @ [0x5F, 0x6C]"
    by (simp add: js_def)
  let ?h = "spec_fnv1a (map uint key) mod 360"
  have h: "0 \<le> ?h" "?h < 360" by simp_all
  show ?thesis
    unfolding stableColorFromKey_def spec_colorFor_def Let_def fnv1aHash32_spec suffix
    using hslToHex_spec[OF h, of 45] hslToHex_spec[OF h, of 58] by simp
qed

lemma utf8_bytes_ascii: "\<forall>c\<in>set key. c < 0x80 \<Longrightarrow> utf8_bytes key = map uint key"
proof (induction key rule: utf8_bytes.induct)
  case 1
  then show ?case by simp
next
  case (2 c)
  then have "uint c < 0x80" by (simp add: word_less_def)
  then show ?case by (simp add: Let_def)
next
  case (3 c d cs)
  then have "uint c < 0x80" by (simp add: word_less_def)
  with 3 show ?case by (simp add: Let_def)
qed

lemma EMO_COLOR_MAP_nonempty: "obj_get EMO_COLOR_MAP key = Some c \<Longrightarrow> c \<noteq> []"
  by (auto simp: obj_get_def EMO_COLOR_MAP_def js_def split: if_splits)

text \<open>
  Claim C9, as the code has it. The result is a function of the key and the mode alone.
  In the open-vocabulary mode it is the reference colour of the specification computed
  over the UTF-16 code units of the key, each code unit xored into the hash as one
  symbol: a 32-bit FNV-1a hash \<open>(hash XOR symbol) * 16777619 mod 2^32\<close> from the
  offset basis 2166136261, the hue \<open>hash mod 360\<close>, the lightness 45 or 58 by the
  parity of the hash of the key followed by \<open>_l\<close>, saturation 82, and the standard
  conversion to a hexadecimal RGB string. For a key of ASCII characters the code units
  are the bytes of the key, and the colour is the reference colour over its bytes. In
  the closed-vocabulary mode every key of the curated table has the colour of the table.
\<close>

theorem colorForKey_refines_spec:
  "colorForKey key Func = Color (spec_colorFor (map uint key))
   \<and> ((\<forall>c\<in>set key. c < 0x80) \<longrightarrow> colorForKey key Func = Color (spec_colorFor (utf8_bytes key)))
   \<and> (\<forall>c. obj_get EMO_COLOR_MAP key = Some c \<longrightarrow> colorForKey key Emo = Color c)"
proof (intro conjI impI allI)
  show "colorForKey key Func = Color (spec_colorFor (map uint key))"
    by (simp add: colorForKey_def stableColorFromKey_spec)
next
  assume "\<forall>c\<in>set key. c < 0x80"
  then show "colorForKey key Func = Color (spec_colorFor (utf8_bytes key))"
    by (simp add: colorForKey_def stableColorFromKey_spec utf8_bytes_ascii)
next
  fix c assume "obj_get EMO_COLOR_MAP key = Some c"
  then show "colorForKey key Emo = Color c"
    using EMO_COLOR_MAP_nonempty[of key c] by (simp add: colorForKey_def obj_read_def)
qed

text \<open>The theorem at the ASCII key \<open>func_greet\<close> and at the emotion key \<open>laugh\<close>.\<close>

theorem colorForKey_refines_spec_witness:
  "list_all (\<lambda>c. c < 0x80) (js ''func_greet'')
   \<and> colorForKey (js ''func_greet'') Func = Color (spec_colorFor (utf8_bytes (js ''func_greet'')))
   \<and> colorForKey (js ''func_greet'') Func = Color (js ''#d1c715'')
   \<and> obj_get EMO_COLOR_MAP (js ''laugh'') = Some (js ''#16a34a'')
   \<and> colorForKey (js ''laugh'') Emo = Color (js ''#16a34a'')"
proof -
  have ascii: "list_all (\<lambda>c. c < 0x80) (js ''func_greet'')" by code_simp
  then have h: "\<forall>c\<in>set (js ''func_greet''). c < 0x80" by (simp add: list_all_iff)
  have v: "colorForKey (js ''func_greet'') Func = Color (js ''#d1c715'')" by code_simp
  have t: "obj_get EMO_COLOR_MAP (js ''laugh'') = Some (js ''#16a34a'')" by code_simp
  from colorForKey_refines_spec[of "js ''func_greet''"] h
  have b: "colorForKey (js ''func_greet'') Func
      = Color (spec_colorFor (utf8_bytes (js ''func_greet'')))"
    by blast
  from colorForKey_refines_spec[of "js ''laugh''"] t
  have e: "colorForKey (js ''laugh'') Emo = Color (js ''#16a34a'')"
    by blast
  from ascii v t b e show ?thesis by blast
qed

text \<open>
  Claim C9 as it is worded, with the hash accumulated over the bytes of the key: for the
  key of the single character U+5F39, whose UTF-8 bytes are E5 BC B9, the code xors the
  code unit \<open>0x5F39\<close> into the hash in one step and returns \<open>#3cec5f\<close>, while the
  reference over the three bytes gives \<open>#7cd115\<close>. The two bytes of the code unit, in
  either order, give a third and a fourth colour.
\<close>

theorem colorForKey_bytes_counterexample:
  "colorForKey [0x5F39] Func = Color (js ''#3cec5f'')
   \<and> utf8_bytes [0x5F39] = [0xE5, 0xBC, 0xB9]
   \<and> spec_colorFor (utf8_bytes [0x5F39]) = js ''#7cd115''
   \<and> colorForKey [0x5F39] Func \<noteq> Color (spec_colorFor (utf8_bytes [0x5F39]))
   \<and> colorForKey [0x5F39] Func \<noteq> Color (spec_colorFor [0x39, 0x5F])
   \<and> colorForKey [0x5F39] Func \<noteq> Color (spec_colorFor [0x5F, 0x39])"
  by code_simp

text \<open>
  Outside the curated table the closed-vocabulary mode returns the fallback colour,
  except for a key that names a member of \<open>Object.prototype\<close>, for which it returns
  that member.
\<close>

lemma colorForKey_Emo_other_keys:
  "obj_get EMO_COLOR_MAP key = None \<Longrightarrow>
   colorForKey key Emo =
     (if key \<in> set Object_prototype_keys then ProtoMember key else Color (js ''#334155''))"
  by (simp add: colorForKey_def obj_read_def)

lemma colorForKey_constructor: "colorForKey (js ''constructor'') Emo = ProtoMember (js ''constructor'')"
  by code_simp

section \<open>Verification: the distribution aggregator\<close>

text \<open>
  Claim C8. For every selection of episodes and every comparison kind, closed or open
  vocabulary, if none of the selected episodes has any rows in the table the kind needs,
  the aggregator returns the empty result: no rows and no categories, not one all-zero
  row per episode.
\<close>

theorem distCompareData_no_data:
  assumes "\<forall>ep\<in>set distCompareEps. slot_rows store ep (distTableKey distKind) = []"
  shows "distCompareData H store distCompareEps distKind distStackTopN = Inr emptyDistCompare
    \<and> dc_rows emptyDistCompare = []
    \<and> dc_keys emptyDistCompare = []"
proof -
  have "\<not> hasAny store distCompareEps (distTableKey distKind)"
    using assms by (simp add: hasAny_def list_ex_iff)
  then have "distCompareData H store distCompareEps distKind distStackTopN = Inr emptyDistCompare"
    by (cases "isEmo distKind") (simp_all add: distCompareData_def distTableKey_def Let_def)
  then show ?thesis by (simp add: emptyDistCompare_def)
qed

text \<open>
  The theorem at the store that holds only the emotion table of episode 3, for the
  function-distribution comparison of that episode.
\<close>

theorem distCompareData_no_data_witness:
  "slot_rows store_3 (js ''3'') (distTableKey func_danmaku) = []
   \<and> distCompareData H0 store_3 [js ''3''] func_danmaku (Fin 6) = Inr emptyDistCompare
   \<and> dc_rows emptyDistCompare = []
   \<and> dc_keys emptyDistCompare = []"
proof -
  have slot: "slot_rows store_3 (js ''3'') (distTableKey func_danmaku) = []"
    by code_simp
  then have h: "\<forall>ep\<in>set [js ''3'']. slot_rows store_3 ep (distTableKey func_danmaku) = []"
    by simp
  from distCompareData_no_data[OF h, of H0 "Fin 6"] slot show ?thesis by blast
qed

lemma topKeys_clamp_low: "N \<le> 3 \<Longrightarrow> topKeys fm (Fin N) = topKeys fm (Fin 3)"
  by (simp add: topKeys_def clamp_number_def min_def max_def)

lemma funcMean_example_func:
  "funcMean H0 example_func_store [js ''1'', js ''2''] (js ''danmaku_func_dist'')
     = Inr example_func_mean"
  by code_simp

lemma distCompareData_example_func:
  "distCompareData H0 example_func_store [js ''1'', js ''2''] func_danmaku (Fin 2)
     = Inr example_func_result"
  by code_simp

text \<open>
  Claim C1, as the code has it. The bound \<open>topN = 2\<close> is clamped to 3, so the result
  for 2 is the result for 3, for every store and selection. The mean ratio of a tag is
  taken over the tables in which the tag occurs: for the two episodes of the example it
  is 0.4 for spoiler, 0.4 for hype, 0.3 for \<open>other_tag\<close> and 0.25 for greet. The named
  categories are spoiler, hype and \<open>other_tag\<close>, and the synthetic \<open>other\<close> is
  \<open>1 - 0.3 - 0 - 0.3 = 0.4\<close> for episode 1 and \<open>1 - 0.5 - 0.4 - 0 = 0.1\<close> for
  episode 2.
\<close>

theorem distCompareData_topN_example:
  "distCompareData H store eps kind (Fin 2) = distCompareData H store eps kind (Fin 3)
   \<and> funcMean H0 example_func_store [js ''1'', js ''2''] (js ''danmaku_func_dist'')
       = Inr example_func_mean
   \<and> funcScores example_func_mean
       = [(js ''spoiler'', 2 / 5), (js ''hype'', 2 / 5), (js ''other_tag'', 3 / 10),
          (js ''greet'', 1 / 4)]
   \<and> distCompareData H0 example_func_store [js ''1'', js ''2''] func_danmaku (Fin 2)
       = Inr example_func_result
   \<and> dc_keys example_func_result
       = [js ''spoiler'', js ''hype'', js ''other_tag'', js ''other'']
   \<and> row_num (dc_rows example_func_result ! 0) (js ''other'') = 2 / 5
   \<and> row_num (dc_rows example_func_result ! 1) (js ''other'') = 1 / 10"
proof (intro conjI)
  have clamp: "topKeys fm (Fin 2) = topKeys fm (Fin 3)" for fm
    by (rule topKeys_clamp_low) simp
  show "distCompareData H store eps kind (Fin 2) = distCompareData H store eps kind (Fin 3)"
    by (simp add: distCompareData_def Let_def clamp split: sum.split)
  show "funcMean H0 example_func_store [js ''1'', js ''2''] (js ''danmaku_func_dist'')
       = Inr example_func_mean"
    by (rule funcMean_example_func)
  show "funcScores example_func_mean
       = [(js ''spoiler'', 2 / 5), (js ''hype'', 2 / 5), (js ''other_tag'', 3 / 10),
          (js ''greet'', 1 / 4)]"
    by code_simp
  show "distCompareData H0 example_func_store [js ''1'', js ''2''] func_danmaku (Fin 2)
       = Inr example_func_result"
    by (rule distCompareData_example_func)
  show "dc_keys example_func_result
       = [js ''spoiler'', js ''hype'', js ''other_tag'', js ''other'']"
    by (simp add: example_func_result_def)
  show "row_num (dc_rows example_func_result ! 0) (js ''other'') = 2 / 5"
    by (simp add: example_func_result_def row_num_def obj_get_def js_def)
  show "row_num (dc_rows example_func_result ! 1) (js ''other'') = 1 / 10"
    by (simp add: example_func_result_def row_num_def obj_get_def js_def)
qed

text \<open>
  Claim C1 as it is worded: on that input with \<open>topN = 2\<close> the named categories are
  not greet and spoiler (greet is not among them, hype and \<open>other_tag\<close> are), and
  \<open>other\<close> is neither 0.3 for episode 1 nor 0.4 for episode 2.
\<close>

theorem distCompareData_topN2_counterexample:
  "distCompareData H0 example_func_store [js ''1'', js ''2''] func_danmaku (Fin 2)
     = Inr example_func_result
   \<and> js ''greet'' \<notin> set (dc_keys example_func_result)
   \<and> js ''hype'' \<in> set (dc_keys example_func_result)
   \<and> row_num (dc_rows example_func_result ! 0) (js ''other'') \<noteq> 3 / 10
   \<and> row_num (dc_rows example_func_result ! 1) (js ''other'') \<noteq> 4 / 10"
  using distCompareData_example_func
  by (simp add: example_func_result_def row_num_def obj_get_def js_def)

subsection \<open>The synthetic category \<open>other\<close>\<close>

lemma fill_row_snoc:
  "fill_row m (ks @ [x]) row0 = obj_set (fill_row m ks row0) x (JNum (mval m x))"
  by (simp add: fill_row_def mval_def)

lemma obj_get_fill_row:
  "k \<in> set ks \<Longrightarrow> obj_get (fill_row m ks row0) k = Some (JNum (mval m k))"
proof (induction ks rule: rev_induct)
  case Nil
  then show ?case by simp
next
  case (snoc x xs)
  then show ?case by (auto simp: fill_row_snoc obj_get_obj_set)
qed

lemma foldl_plus_sum_list:
  "foldl (\<lambda>s k. s + f k) a ks = a + sum_list (map f ks)" for a :: rat
  by (induction ks arbitrary: a) (simp_all add: add.assoc)

lemma sum_list_override_le:
  assumes "distinct ks" "\<forall>k. 0 \<le> g k" "0 \<le> v"
  shows "sum_list (map (\<lambda>k. if k = t then v else g k) ks) \<le> sum_list (map g ks) + (v :: rat)"
  using assms(1)
proof (induction ks)
  case Nil
  then show ?case using assms(3) by simp
next
  case (Cons a ks)
  show ?case
  proof (cases "a = t")
    case True
    then have "t \<notin> set ks" using Cons.prems by simp
    then have eq: "sum_list (map (\<lambda>k. if k = t then v else g k) ks) = sum_list (map g ks)"
      by (induction ks) auto
    show ?thesis using True assms(2)[rule_format, of t] by (simp add: eq)
  next
    case False
    then show ?thesis using Cons by simp
  qed
qed

lemma ratio_map_snoc:
  "ratio_map H field (rs @ [r])
     = obj_assign (ratio_map H field rs) (row_tag H field r) (row_ratio H r)"
  by (simp add: ratio_map_def)

lemma mval_obj_assign:
  "mval (obj_assign m t v) k = (if k = t \<and> t \<noteq> js ''__proto__'' then v else mval m k)"
  by (simp add: mval_def obj_assign_def obj_get_obj_set)

lemma ratio_map_bounds:
  assumes "\<forall>r\<in>set rs. 0 \<le> row_ratio H r"
  shows "(\<forall>k. 0 \<le> mval (ratio_map H field rs) k)
    \<and> (\<forall>ks. distinct ks \<longrightarrow>
          sum_list (map (mval (ratio_map H field rs)) ks) \<le> sum_list (map (row_ratio H) rs))"
  using assms
proof (induction rs rule: rev_induct)
  case Nil
  have "mval (ratio_map H field []) = (\<lambda>k. 0)"
    by (rule ext) (simp add: ratio_map_def mval_def obj_get_def)
  then show ?case by simp
next
  case (snoc r rs)
  let ?m = "ratio_map H field rs"
  let ?m' = "ratio_map H field (rs @ [r])"
  have ih: "\<forall>k. 0 \<le> mval ?m k"
    "\<And>ks. distinct ks \<Longrightarrow> sum_list (map (mval ?m) ks) \<le> sum_list (map (row_ratio H) rs)"
    using snoc by auto
  have v: "0 \<le> row_ratio H r" using snoc.prems by simp
  have step: "(\<forall>k. 0 \<le> mval ?m' k)
      \<and> (\<forall>ks. distinct ks \<longrightarrow>
            sum_list (map (mval ?m') ks) \<le> sum_list (map (mval ?m) ks) + row_ratio H r)"
  proof (cases "row_tag H field r = js ''__proto__''")
    case True
    then have "mval ?m' = mval ?m"
      by (intro ext) (simp add: ratio_map_snoc mval_obj_assign)
    then show ?thesis using ih(1) v by simp
  next
    case False
    then have eq: "mval ?m'
        = (\<lambda>k. if k = row_tag H field r then row_ratio H r else mval ?m k)"
      by (intro ext) (simp add: ratio_map_snoc mval_obj_assign)
    show ?thesis
    proof (intro conjI allI impI)
      fix k show "0 \<le> mval ?m' k"
        using ih(1) v by (simp add: eq)
    next
      fix ks :: "jsstring list" assume d: "distinct ks"
      show "sum_list (map (mval ?m') ks) \<le> sum_list (map (mval ?m) ks) + row_ratio H r"
        unfolding eq by (rule sum_list_override_le[OF d ih(1) v])
    qed
  qed
  show ?case
  proof (intro conjI allI impI)
    fix k show "0 \<le> mval ?m' k" using step by blast
  next
    fix ks :: "jsstring list" assume d: "distinct ks"
    have "sum_list (map (mval ?m') ks) \<le> sum_list (map (mval ?m) ks) + row_ratio H r"
      using step d by blast
    also have "\<dots> \<le> sum_list (map (row_ratio H) rs) + row_ratio H r"
      using ih(2)[OF d] by simp
    finally show "sum_list (map (mval ?m') ks) \<le> sum_list (map (row_ratio H) (rs @ [r]))"
      by simp
  qed
qed

lemma row_num_obj_set:
  "row_num (obj_set row k (JNum v)) k' = (if k' = k then v else row_num row k')"
  by (simp add: row_num_def obj_get_obj_set)

lemma func_row_other:
  "row_num (func_row H store tableKey tops ep) (js ''other'')
     = max 0 (1 - sum_list (map (mval (ratio_map H (js ''func'') (slot_rows store ep tableKey))) tops))"
proof -
  let ?m = "ratio_map H (js ''func'') (slot_rows store ep tableKey)"
  have "map (row_num (fill_row ?m tops (base_row ep))) tops = map (mval ?m) tops"
    by (rule map_cong) (simp_all add: row_num_def obj_get_fill_row)
  then have eq: "sum_list (map (row_num (fill_row ?m tops (base_row ep))) tops)
      = sum_list (map (mval ?m) tops)"
    by (rule arg_cong)
  show ?thesis
    by (simp add: func_row_def Let_def row_num_obj_set foldl_plus_sum_list eq)
qed

lemma func_row_named:
  assumes "k \<in> set tops" "k \<noteq> js ''other''"
  shows "row_num (func_row H store tableKey tops ep) k
     = mval (ratio_map H (js ''func'') (slot_rows store ep tableKey)) k"
  using assms by (simp add: func_row_def Let_def row_num_obj_set) (simp add: row_num_def obj_get_fill_row)

lemma func_row_other_nonneg: "0 \<le> row_num (func_row H store tableKey tops ep) (js ''other'')"
  by (simp add: func_row_other)

lemma func_row_sum_one:
  assumes no: "js ''other'' \<notin> set tops" and d: "distinct tops"
    and nn: "\<forall>r\<in>set (slot_rows store ep tableKey). 0 \<le> row_ratio H r"
    and one: "sum_list (map (row_ratio H) (slot_rows store ep tableKey)) = 1"
  shows "sum_list (map (row_num (func_row H store tableKey tops ep)) tops)
       + row_num (func_row H store tableKey tops ep) (js ''other'') = 1"
proof -
  let ?m = "ratio_map H (js ''func'') (slot_rows store ep tableKey)"
  have "row_num (func_row H store tableKey tops ep) k = mval ?m k" if "k \<in> set tops" for k
  proof -
    from that no have "k \<noteq> js ''other''" by auto
    with that show ?thesis by (rule func_row_named)
  qed
  then have "map (row_num (func_row H store tableKey tops ep)) tops = map (mval ?m) tops"
    by (intro map_cong) simp_all
  then have eq: "sum_list (map (row_num (func_row H store tableKey tops ep)) tops)
      = sum_list (map (mval ?m) tops)"
    by (rule arg_cong)
  have "sum_list (map (mval ?m) tops) \<le> 1"
    using ratio_map_bounds[OF nn, of "js ''func''"] d one by auto
  then show ?thesis by (simp add: func_row_other eq)
qed

lemma distinct_keys_obj_insert_index:
  "k \<notin> fst ` set ob \<Longrightarrow> distinct (map fst ob) \<Longrightarrow>
   distinct (map fst (obj_insert_index n k v ob))"
proof (induction ob)
  case Nil
  then show ?case by simp
next
  case (Cons a ob)
  obtain k' v' where a: "a = (k', v')" by (cases a)
  have "fst ` set (obj_insert_index n k v ob) = insert k (fst ` set ob)"
    by (simp add: set_obj_insert_index)
  with Cons a show ?case by (auto split: option.splits)
qed

lemma distinct_keys_obj_set:
  "distinct (map fst ob) \<Longrightarrow> distinct (map fst (obj_set ob k v))"
proof (cases "map_of ob k")
  case None
  assume d: "distinct (map fst ob)"
  from None have "k \<notin> fst ` set ob" by (simp add: map_of_eq_None_iff)
  with None d show ?thesis
    by (auto simp: obj_set_def distinct_keys_obj_insert_index split: option.splits)
next
  case (Some a)
  assume d: "distinct (map fst ob)"
  have e: "map fst (map (\<lambda>(k', v'). if k' = k then (k, v) else (k', v')) ob) = map fst ob"
    by (induction ob) auto
  from Some have "obj_set ob k v = map (\<lambda>(k', v'). if k' = k then (k, v) else (k', v')) ob"
    by (simp add: obj_set_def)
  then show ?thesis unfolding e using d by (simp only: e)
qed

lemma distinct_keys_funcMean_push:
  "distinct (map fst fm) \<Longrightarrow> funcMean_push H fm r = Inr fm' \<Longrightarrow> distinct (map fst fm')"
  by (auto simp: funcMean_push_def Let_def distinct_keys_obj_set split: property.splits)

lemma distinct_keys_foldl_push:
  "distinct (map fst fm) \<Longrightarrow> foldl_err (funcMean_push H) fm rs = Inr fm' \<Longrightarrow>
   distinct (map fst fm')"
proof (induction rs arbitrary: fm)
  case Nil
  then show ?case by simp
next
  case (Cons r rs)
  then show ?case
    by (auto split: sum.splits dest: distinct_keys_funcMean_push)
qed

lemma distinct_keys_funcMean:
  assumes "funcMean H store eps tableKey = Inr fm"
  shows "distinct (map fst fm)"
proof -
  have "distinct (map fst fm')"
    if "distinct (map fst fm0)"
      and "foldl_err (\<lambda>fm ep. foldl_err (funcMean_push H) fm (slot_rows store ep tableKey))
             fm0 es = Inr fm'"
    for fm0 fm' :: "(rat list) jsobj" and es
    using that
  proof (induction es arbitrary: fm0)
    case Nil
    then show ?case by simp
  next
    case (Cons e es)
    then show ?case
      by (auto split: sum.splits dest: distinct_keys_foldl_push)
  qed
  from this[of "[]" eps fm] assms show ?thesis by (simp add: funcMean_def)
qed

lemma distinct_map_fst_sort_key:
  "distinct (map fst xs) \<Longrightarrow> distinct (map fst (sort_key g xs))"
  by (simp add: distinct_map)

lemma distinct_topKeys: "distinct (map fst fm) \<Longrightarrow> distinct (topKeys fm N)"
proof -
  assume d: "distinct (map fst fm)"
  let ?xs = "map (\<lambda>(k, arr). (k, sum_list arr / max 1 (of_nat (length arr)))) fm"
  have e: "map fst ?xs = map fst fm" by (induction fm) auto
  have "distinct (map fst ?xs)" unfolding e by (rule d)
  then have "distinct (map fst (funcScores fm))"
    unfolding funcScores_def by (rule distinct_map_fst_sort_key)
  then have "distinct (take (slice_end (clamp_number 3 12 N)) (map fst (funcScores fm)))"
    by (rule distinct_take)
  then show ?thesis by (simp only: topKeys_def take_map)
qed

lemma distCompareData_func:
  assumes "\<not> isEmo distKind" "hasAny store eps (funcTableKey distKind)"
    and "funcMean H store eps (funcTableKey distKind) = Inr fm"
  shows "distCompareData H store eps distKind N
       = Inr \<lparr>dc_rows = map (func_row H store (funcTableKey distKind) (topKeys fm N)) eps,
               dc_keys = topKeys fm N @ [js ''other''],
               dc_label = funcLabel distKind,
               dc_colors = func_colors (topKeys fm N @ [js ''other''])\<rparr>"
proof -
  have "eps \<noteq> []" using assms(2) by (auto simp: hasAny_def)
  with assms show ?thesis by (simp add: distCompareData_def Let_def)
qed

lemma distCompareData_func_cases:
  assumes "\<not> isEmo distKind" "distCompareData H store eps distKind N = Inr R"
  shows "R = emptyDistCompare
    \<or> (\<exists>fm. funcMean H store eps (funcTableKey distKind) = Inr fm
          \<and> hasAny store eps (funcTableKey distKind)
          \<and> dc_rows R = map (func_row H store (funcTableKey distKind) (topKeys fm N)) eps
          \<and> dc_keys R = topKeys fm N @ [js ''other''])"
proof (cases "hasAny store eps (funcTableKey distKind)")
  case False
  then have "distCompareData H store eps distKind N = Inr emptyDistCompare"
    using assms(1) by (cases "eps = []") (simp_all add: distCompareData_def Let_def)
  with assms(2) show ?thesis by simp
next
  case True
  show ?thesis
  proof (cases "funcMean H store eps (funcTableKey distKind)")
    case (Inl e)
    have "eps \<noteq> []" using True by (auto simp: hasAny_def)
    then have "distCompareData H store eps distKind N = Inl e"
      using assms(1) True Inl by (simp add: distCompareData_def Let_def)
    with assms(2) show ?thesis by simp
  next
    case (Inr fm)
    from distCompareData_func[OF assms(1) True Inr, of N] assms(2) Inr True
    show ?thesis by auto
  qed
qed

text \<open>
  In the open-vocabulary mode the value of \<open>other\<close> in every row is
  \<open>max(0, 1 - sumTop)\<close> and so never negative.
\<close>

lemma distCompareData_other_nonneg:
  assumes "\<not> isEmo distKind" "distCompareData H store eps distKind N = Inr R"
    and "r \<in> set (dc_rows R)"
  shows "0 \<le> row_num r (js ''other'')"
  using distCompareData_func_cases[OF assms(1,2)] assms(3)
  by (auto simp: emptyDistCompare_def func_row_other_nonneg)

text \<open>
  When no named category is itself called \<open>other\<close>, the row of an episode whose
  ratios are non-negative and sum to 1 sums to 1: the named categories are distinct keys
  of the episode's table, so their ratios sum to at most 1.
\<close>

lemma distCompareData_row_sum:
  assumes kind: "\<not> isEmo distKind" and res: "distCompareData H store eps distKind N = Inr R"
    and any: "hasAny store eps (funcTableKey distKind)"
    and i: "i < length eps"
    and nn: "\<forall>r\<in>set (slot_rows store (eps ! i) (funcTableKey distKind)). 0 \<le> row_ratio H r"
    and one: "sum_list (map (row_ratio H) (slot_rows store (eps ! i) (funcTableKey distKind))) = 1"
    and no: "js ''other'' \<notin> set (butlast (dc_keys R))"
  shows "sum_list (map (row_num (dc_rows R ! i)) (butlast (dc_keys R)))
       + row_num (dc_rows R ! i) (js ''other'') = 1"
proof -
  have "eps \<noteq> []" using i by auto
  obtain fm where fm: "funcMean H store eps (funcTableKey distKind) = Inr fm"
    using kind res any \<open>eps \<noteq> []\<close>
    by (cases "funcMean H store eps (funcTableKey distKind)")
       (simp_all add: distCompareData_def Let_def)
  let ?tops = "topKeys fm N"
  have R: "R = \<lparr>dc_rows = map (func_row H store (funcTableKey distKind) ?tops) eps,
               dc_keys = ?tops @ [js ''other''],
               dc_label = funcLabel distKind,
               dc_colors = func_colors (?tops @ [js ''other''])\<rparr>"
    using distCompareData_func[OF kind any fm, of N] res by simp
  have keys: "butlast (dc_keys R) = ?tops" by (simp add: R)
  have row: "dc_rows R ! i = func_row H store (funcTableKey distKind) ?tops (eps ! i)"
    using i by (simp add: R)
  have d: "distinct ?tops" by (rule distinct_topKeys) (rule distinct_keys_funcMean[OF fm])
  show ?thesis unfolding keys row
    using func_row_sum_one[OF _ d nn one] no keys by simp
qed

text \<open>
  Claim C7 at a table in which a function tag is itself called \<open>other\<close>. Episode 1
  has the tags \<open>a\<close> and \<open>other\<close> with ratio 0.5 each, which sum to 1. Both tags are
  named categories, and \<open>row["other"]\<close>, first filled with 0.5 from the table, is then
  overwritten with \<open>max(0, 1 - (0.5 + 0.5)) = 0\<close>: the row holds \<open>a = 0.5\<close> and
  \<open>other = 0\<close>, its categories sum to 0.5, and the category list names \<open>other\<close>
  twice.
\<close>

theorem distCompareData_other_collision:
  "sum_list (map (row_ratio H0) (slot_rows other_tag_store (js ''1'') (js ''danmaku_func_dist''))) = 1
   \<and> distCompareData H0 other_tag_store [js ''1''] func_danmaku (Fin 3) = Inr other_tag_result
   \<and> dc_keys other_tag_result = [js ''a'', js ''other'', js ''other'']
   \<and> dc_rows other_tag_result
       = [[(js ''episode'', JStr ([0x7B2C] @ js ''1'' @ [0x96C6])), (js ''ep'', JStr (js ''1'')),
           (js ''a'', JNum (1 / 2)), (js ''other'', JNum 0)]]
   \<and> row_num (dc_rows other_tag_result ! 0) (js ''a'')
       + row_num (dc_rows other_tag_result ! 0) (js ''other'') = 1 / 2"
proof -
  have ratios: "sum_list (map (row_ratio H0)
          (slot_rows other_tag_store (js ''1'') (js ''danmaku_func_dist''))) = 1"
    by code_simp
  have result: "distCompareData H0 other_tag_store [js ''1''] func_danmaku (Fin 3)
      = Inr other_tag_result"
    by code_simp
  show ?thesis
    using ratios result
    by (simp add: other_tag_result_def row_num_def obj_get_def js_def)
qed

text \<open>
  A function tag that names a member of \<open>Object.prototype\<close> ends the aggregation with
  a TypeError.
\<close>

lemma funcMean_push_constructor:
  "funcMean_push H0 [] (dist_row (js ''func'') (js ''constructor'') (1 / 2)) = Inl TypeError"
  by code_simp

end
